theory Spec2Isabelle
  imports Main "HOL-Library.Sublist"
begin

section \<open>Embedding of \<open>avito.py\<close>\<close>

text \<open>
  Python strings are modelled as HOL strings whose characters are read as the code
  points U+0000 .. U+00FF (so \<open>CHR 0xE9\<close> is the letter e with acute accent);
  documents with code points beyond that range are outside the model. Calls into
  libraries whose text is not part of the program (the HTML parsers, \<open>urljoin\<close>,
  \<open>datetime.fromisoformat\<close>, \<open>uuid4\<close>, the clock, the HTTP client and the
  browser session) are parameters of the functions that use them. A Python exception is
  a value: \<open>Inl\<close> of the sum type \<open>raised + 'a\<close>.
\<close>

subsection \<open>Text normaliser: \<open>clean_text\<close>\<close>

text \<open>
  \<open>str.isspace\<close>, which is also what \<open>\s\<close> matches in a \<open>str\<close> pattern and what
  \<open>str.strip()\<close> removes: TAB, LF, VT, FF, CR, FS, GS, RS, US, SPACE, NEL and NBSP
  are the white-space code points below U+0100.
\<close>

definition isspace :: "char \<Rightarrow> bool" where
  "isspace c = ((of_char c :: nat) \<in> set [9, 10, 11, 12, 13, 28, 29, 30, 31, 32, 133, 160])"

text \<open>\<open>s.replace(old, new)\<close> for one-character arguments.\<close>

definition replace_char :: "char \<Rightarrow> char \<Rightarrow> string \<Rightarrow> string" where
  "replace_char old new s = map (\<lambda>c. if c = old then new else c) s"

text \<open>\<open>re.sub(r"\s+", " ", s)\<close>: every maximal run of white space becomes one space.\<close>

function sub_spaces :: "string \<Rightarrow> string" where
  "sub_spaces [] = []"
| "sub_spaces (c # cs) =
     (if isspace c then CHR '' '' # sub_spaces (dropWhile isspace cs)
      else c # sub_spaces cs)"
  by pat_completeness auto
termination
  by (relation "measure length") (auto simp: length_dropWhile_le less_Suc_eq_le)

definition lstrip :: "string \<Rightarrow> string" where
  "lstrip s = dropWhile isspace s"

definition rstrip :: "string \<Rightarrow> string" where
  "rstrip s = rev (dropWhile isspace (rev s))"

definition strip :: "string \<Rightarrow> string" where
  "strip s = rstrip (lstrip s)"

text \<open>
  \<open>clean_text(value)\<close>. The argument is \<open>None\<close> or a string (every call site passes
  the result of \<open>get_text()\<close>); \<open>not value\<close> holds for \<open>None\<close> and for the empty
  string.
\<close>

definition clean_text :: "string option \<Rightarrow> string" where
  "clean_text v =
     (case v of
        None \<Rightarrow> []
      | Some s \<Rightarrow>
          if s = [] then []
          else strip (sub_spaces
                 (replace_char (CHR 0x09) CHR '' ''
                   (replace_char (CHR 0x0D) CHR '' ''
                     (replace_char (CHR 0x0A) CHR '' '' s)))))"

text \<open>
  The normaliser in the specification's words: split the text at white-space runs
  (\<open>ws_words\<close>, Python's \<open>str.split()\<close>) and join the pieces with single spaces.
\<close>

function ws_words :: "string \<Rightarrow> string list" where
  "ws_words s =
     (case dropWhile isspace s of
        [] \<Rightarrow> []
      | c # cs \<Rightarrow> (c # takeWhile (\<lambda>x. \<not> isspace x) cs)
                 # ws_words (dropWhile (\<lambda>x. \<not> isspace x) cs))"
  by pat_completeness auto
termination
proof (relation "measure length", goal_cases)
  case 1
  show ?case by simp
next
  case (2 s c cs)
  have "length (dropWhile (\<lambda>x. \<not> isspace x) cs) \<le> length cs"
    by (rule length_dropWhile_le)
  moreover have "length (dropWhile isspace s) \<le> length s"
    by (rule length_dropWhile_le)
  ultimately show ?case using 2 by simp
qed

declare ws_words.simps [simp del]

fun unwords :: "string list \<Rightarrow> string" where
  "unwords [] = []"
| "unwords [w] = w"
| "unwords (w # v # ws) = w @ CHR '' '' # unwords (v # ws)"

definition normalize_spec :: "string \<Rightarrow> string" where
  "normalize_spec s = unwords (ws_words s)"

subsection \<open>The browsing session: \<open>fetch_page_with_selenium\<close>\<close>

text \<open>
  What a Python call raises. \<open>Exception\<close> stands for every exception that
  \<open>except Exception\<close> catches, \<open>KeyboardInterrupt\<close> for those it does not catch (the
  classes derived from \<open>BaseException\<close> only).
\<close>

datatype raised = Exception | KeyboardInterrupt

text \<open>
  What the session shows while one detail page is visited, call by call: the outcome of
  \<open>driver.get(url)\<close>, of the \<open>k\<close>-th look for an \<open>h1\<close> element, of the two scripts,
  of the \<open>k\<close>-th count of equipment images, of the final query for the equipment
  images (for each image what \<open>get_attribute("alt")\<close> returns) and of
  \<open>driver.page_source\<close>.
\<close>

record page_view =
  nav :: "raised option"
  find_h1 :: "nat \<Rightarrow> raised + bool"
  scroll_script :: "raised option"
  click_script :: "raised option"
  equip_count :: "nat \<Rightarrow> raised + nat"
  equip_imgs :: "raised + (raised + string option) list"
  page_source :: "raised + string"

text \<open>
  \<open>for _ in range(20): if driver.find_elements(By.TAG_NAME, "h1"): break\<close>. The
  arguments are the index of the next attempt and the number of attempts left; the
  result is the number of attempts made.
\<close>

fun wait_h1 :: "(nat \<Rightarrow> raised + bool) \<Rightarrow> nat \<Rightarrow> nat \<Rightarrow> raised + nat" where
  "wait_h1 look i 0 = Inr i"
| "wait_h1 look i (Suc k) =
     (case look i of
        Inl e \<Rightarrow> Inl e
      | Inr found \<Rightarrow> if found then Inr (Suc i) else wait_h1 look (Suc i) k)"

text \<open>
  The loop that waits for the equipment count to settle (\<open>prev_count = 0\<close>, then
  \<open>for _ in range(10)\<close>). The arguments are the index of the next attempt, the number
  of attempts left and \<open>prev_count\<close>; the result is the number of attempts made, the
  last count read and whether the loop left through \<open>break\<close>.
\<close>

fun poll_equip ::
  "(nat \<Rightarrow> raised + nat) \<Rightarrow> nat \<Rightarrow> nat \<Rightarrow> nat \<Rightarrow> raised + (nat \<times> nat \<times> bool)" where
  "poll_equip cnt i 0 prev_count = Inr (i, prev_count, False)"
| "poll_equip cnt i (Suc k) prev_count =
     (case cnt i of
        Inl e \<Rightarrow> Inl e
      | Inr curr_count \<Rightarrow>
          if curr_count > 0 \<and> curr_count = prev_count then Inr (Suc i, curr_count, True)
          else poll_equip cnt (Suc i) k curr_count)"

definition wait_equip_stable :: "(nat \<Rightarrow> raised + nat) \<Rightarrow> raised + (nat \<times> nat \<times> bool)" where
  "wait_equip_stable cnt = poll_equip cnt 0 10 0"

text \<open>
  The body of the \<open>try\<close> that reads the equipment labels: \<open>equipments\<close> is extended
  in place, so what was appended before a failure stays.
\<close>

fun collect_alts :: "(raised + string option) list \<Rightarrow> string list \<Rightarrow> raised option \<times> string list" where
  "collect_alts [] equipments = (None, equipments)"
| "collect_alts (img # imgs) equipments =
     (case img of
        Inl e \<Rightarrow> (Some e, equipments)
      | Inr None \<Rightarrow> collect_alts imgs equipments
      | Inr (Some alt) \<Rightarrow>
          if alt \<noteq> [] \<and> alt \<notin> set equipments then collect_alts imgs (equipments @ [alt])
          else collect_alts imgs equipments)"

definition extract_equipments :: "raised + (raised + string option) list \<Rightarrow> raised + string list" where
  "extract_equipments q =
     (case q of
        Inl Exception \<Rightarrow> Inr []
      | Inl KeyboardInterrupt \<Rightarrow> Inl KeyboardInterrupt
      | Inr imgs \<Rightarrow>
          (case collect_alts imgs [] of
             (Some KeyboardInterrupt, _) \<Rightarrow> Inl KeyboardInterrupt
           | (_, equipments) \<Rightarrow> Inr equipments))"

definition fetch_page_with_selenium :: "page_view \<Rightarrow> raised + (string \<times> string list)" where
  "fetch_page_with_selenium pv =
     (case nav pv of
        Some e \<Rightarrow> Inl e
      | None \<Rightarrow>
     (case wait_h1 (find_h1 pv) 0 20 of
        Inl e \<Rightarrow> Inl e
      | Inr _ \<Rightarrow>
     (case scroll_script pv of
        Some e \<Rightarrow> Inl e
      | None \<Rightarrow>
     (case click_script pv of
        Some e \<Rightarrow> Inl e
      | None \<Rightarrow>
     (case wait_equip_stable (equip_count pv) of
        Inl e \<Rightarrow> Inl e
      | Inr _ \<Rightarrow>
     (case extract_equipments (equip_imgs pv) of
        Inl e \<Rightarrow> Inl e
      | Inr equipments \<Rightarrow>
     (case page_source pv of
        Inl e \<Rightarrow> Inl e
      | Inr html \<Rightarrow> Inr (html, equipments))))))))"

text \<open>
  The fixed point of the specification: attempt \<open>i\<close> (counted from 0) reads a nonzero
  count equal to the count read by the attempt before it.
\<close>

definition fixed_point :: "(nat \<Rightarrow> nat) \<Rightarrow> nat \<Rightarrow> bool" where
  "fixed_point c i = (0 < i \<and> 0 < c i \<and> c i = c (i - 1))"

subsection \<open>Strings and documents\<close>

text \<open>\<open>sub in s\<close> for strings.\<close>

fun contains :: "string \<Rightarrow> string \<Rightarrow> bool" where
  "contains sub [] = (sub = [])"
| "contains sub (c # cs) = (prefix sub (c # cs) \<or> contains sub cs)"

text \<open>\<open>str(n)\<close> for a natural number.\<close>

definition digit_char :: "nat \<Rightarrow> char" where
  "digit_char d = ''0123456789'' ! d"

function str_nat :: "nat \<Rightarrow> string" where
  "str_nat n = (if n < 10 then [digit_char n] else str_nat (n div 10) @ [digit_char (n mod 10)])"
  by pat_completeness auto
termination
  by (relation "measure id") auto

declare str_nat.simps [simp del]

text \<open>\<open>\d\<close> in a \<open>str\<close> pattern: below U+0100 the decimal digits are \<open>0\<close> to \<open>9\<close>.\<close>

definition isdigit :: "char \<Rightarrow> bool" where
  "isdigit c = (48 \<le> (of_char c :: nat) \<and> (of_char c :: nat) \<le> 57)"

text \<open>
  \<open>str.lower()\<close> on one character: below U+0100 the cased upper-case letters are
  \<open>A\<close> to \<open>Z\<close> and U+00C0 to U+00DE without the multiplication sign U+00D7.
\<close>

definition lower_char :: "char \<Rightarrow> char" where
  "lower_char c =
     (let n = (of_char c :: nat)
      in if (65 \<le> n \<and> n \<le> 90) \<or> (192 \<le> n \<and> n \<le> 222 \<and> n \<noteq> 215)
         then char_of (n + 32) else c)"

definition lower :: "string \<Rightarrow> string" where
  "lower s = map lower_char s"

text \<open>
  A parsed document as BeautifulSoup holds it: text nodes, and elements with a tag name,
  an attribute dictionary and children. The soup object is the root element.
\<close>

datatype node = Text string | Elem string "(string \<times> string) list" "node list"

text \<open>All nodes below a node, in document order.\<close>

fun descendants :: "node \<Rightarrow> node list" where
  "descendants (Text t) = []"
| "descendants (Elem tag attrs kids) = concat (map (\<lambda>k. k # descendants k) kids)"

definition is_tag :: "string \<Rightarrow> node \<Rightarrow> bool" where
  "is_tag name n = (case n of Text _ \<Rightarrow> False | Elem tag _ _ \<Rightarrow> tag = name)"

text \<open>\<open>tag.get(name)\<close>.\<close>

definition get_attr :: "node \<Rightarrow> string \<Rightarrow> string option" where
  "get_attr n name = (case n of Text _ \<Rightarrow> None | Elem _ attrs _ \<Rightarrow> map_of attrs name)"

definition text_of :: "node \<Rightarrow> string" where
  "text_of n = (case n of Text t \<Rightarrow> t | Elem _ _ _ \<Rightarrow> [])"

definition get_text :: "node \<Rightarrow> string" where
  "get_text n = concat (map text_of (n # descendants n))"

text \<open>\<open>tag.string\<close>: the text of a node that has a single chain of only children.\<close>

fun node_string :: "node \<Rightarrow> string option" where
  "node_string (Text t) = Some t"
| "node_string (Elem tag attrs [k]) = node_string k"
| "node_string (Elem tag attrs kids) = None"

text \<open>\<open>find_all\<close> and \<open>find\<close> with the search criteria as a predicate.\<close>

definition find_all :: "(node \<Rightarrow> bool) \<Rightarrow> node \<Rightarrow> node list" where
  "find_all p root = filter p (descendants root)"

definition find_first :: "(node \<Rightarrow> bool) \<Rightarrow> node \<Rightarrow> node option" where
  "find_first p root = List.find p (descendants root)"

text \<open>
  \<open>class_=re.compile(pat)\<close> for a pattern without metacharacters: the \<open>class\<close>
  attribute is a list of tokens, and the pattern is searched in every token and in the
  tokens joined by spaces.
\<close>

definition class_matches :: "string \<Rightarrow> node \<Rightarrow> bool" where
  "class_matches pat n =
     (case get_attr n ''class'' of
        None \<Rightarrow> False
      | Some v \<Rightarrow> list_ex (contains pat) (ws_words v) \<or> contains pat (unwords (ws_words v)))"

text \<open>
  \<open>soup.find(name, ...)\<close> followed by \<open>found.find_next(name')\<close>: the first node after
  the found one, in document order, that satisfies the second criterion.
\<close>

definition find_then_next ::
  "(node \<Rightarrow> bool) \<Rightarrow> (node \<Rightarrow> bool) \<Rightarrow> node \<Rightarrow> (node \<times> node option) option" where
  "find_then_next p q root =
     (case dropWhile (\<lambda>n. \<not> p n) (descendants root) of
        [] \<Rightarrow> None
      | found # rest \<Rightarrow> Some (found, List.find q rest))"

subsection \<open>Dates and times\<close>

text \<open>
  A naive \<open>datetime\<close> value, and the proleptic Gregorian day count of the standard
  library (\<open>toordinal\<close>, \<open>fromordinal\<close>; day 1 is 0001-01-01).
\<close>

record datetime =
  year :: nat
  month :: nat
  day :: nat
  hour :: nat
  minute :: nat
  second :: nat
  microsecond :: nat

definition is_leap :: "nat \<Rightarrow> bool" where
  "is_leap y = (y mod 4 = 0 \<and> (y mod 100 \<noteq> 0 \<or> y mod 400 = 0))"

definition days_before_year :: "nat \<Rightarrow> nat" where
  "days_before_year y = (let p = y - 1 in p * 365 + p div 4 - p div 100 + p div 400)"

definition days_in_month :: "nat \<Rightarrow> nat \<Rightarrow> nat" where
  "days_in_month y m =
     (if m = 2 then (if is_leap y then 29 else 28)
      else if m \<in> set [4, 6, 9, 11] then 30 else 31)"

definition days_before_month :: "nat \<Rightarrow> nat \<Rightarrow> nat" where
  "days_before_month y m = sum_list (map (days_in_month y) [1..<m])"

definition ymd2ord :: "nat \<Rightarrow> nat \<Rightarrow> nat \<Rightarrow> nat" where
  "ymd2ord y m d = days_before_year y + days_before_month y m + d"

definition ord2ymd :: "nat \<Rightarrow> nat \<times> nat \<times> nat" where
  "ord2ymd ordinal =
     (let n = ordinal - 1;
          n400 = n div 146097; n = n mod 146097;
          n100 = n div 36524; n = n mod 36524;
          n4 = n div 1461; n = n mod 1461;
          n1 = n div 365; n = n mod 365;
          y = n400 * 400 + 1 + n100 * 100 + n4 * 4 + n1
      in if n1 = 4 \<or> n100 = 4 then (y - 1, 12, 31)
         else
           (let m = (n + 50) div 32;
                m = (if days_before_month y m > n then m - 1 else m)
            in (y, m, n - days_before_month y m + 1)))"

definition MAXORDINAL :: nat where
  "MAXORDINAL = 3652059"

text \<open>
  \<open>timedelta(days=d, hours=h, minutes=m)\<close> for non-negative arguments, as a number of
  seconds; \<open>None\<close> is the \<open>OverflowError\<close> raised beyond 999999999 days.
\<close>

definition timedelta :: "nat \<Rightarrow> nat \<Rightarrow> nat \<Rightarrow> nat option" where
  "timedelta d h m =
     (let s = d * 86400 + h * 3600 + m * 60
      in if s div 86400 > 999999999 then None else Some s)"

text \<open>
  \<open>dt - delta\<close>; \<open>None\<close> is the \<open>OverflowError\<close> raised when the result lies before
  0001-01-01 or after 9999-12-31.
\<close>

definition datetime_sub :: "datetime \<Rightarrow> nat \<Rightarrow> datetime option" where
  "datetime_sub dt delta =
     (let total = ymd2ord (year dt) (month dt) (day dt) * 86400
                    + hour dt * 3600 + minute dt * 60 + second dt
      in if total < delta then None
         else
           (let t = total - delta; days = t div 86400; secs = t mod 86400
            in if 0 < days \<and> days \<le> MAXORDINAL
               then (case ord2ymd days of
                       (y, m, d) \<Rightarrow>
                         Some \<lparr>year = y, month = m, day = d,
                               hour = secs div 3600, minute = secs mod 3600 div 60,
                               second = secs mod 60, microsecond = microsecond dt\<rparr>)
               else None))"

text \<open>
  \<open>dt.strftime("%Y-%m-%d %H:%M:%S")\<close>. The year is written by the C library without
  padding (\<open>525\<close> for the year 525); the other fields have two digits.
\<close>

definition zero_pad :: "nat \<Rightarrow> nat \<Rightarrow> string" where
  "zero_pad w n = replicate (w - length (str_nat n)) CHR ''0'' @ str_nat n"

definition strftime :: "datetime \<Rightarrow> string" where
  "strftime dt =
     str_nat (year dt) @ ''-'' @ zero_pad 2 (month dt) @ ''-'' @ zero_pad 2 (day dt)
       @ '' '' @ zero_pad 2 (hour dt) @ '':'' @ zero_pad 2 (minute dt)
       @ '':'' @ zero_pad 2 (second dt)"

text \<open>\<open>re.search(r"\d+", text)\<close> and \<open>int\<close> of the match.\<close>

definition first_digits :: "string \<Rightarrow> string option" where
  "first_digits s =
     (case dropWhile (\<lambda>c. \<not> isdigit c) s of
        [] \<Rightarrow> None
      | ds \<Rightarrow> Some (takeWhile isdigit ds))"

definition int_of_digits :: "string \<Rightarrow> nat" where
  "int_of_digits ds = foldl (\<lambda>acc c. 10 * acc + ((of_char c :: nat) - 48)) 0 ds"

subsection \<open>Configuration and collaborators\<close>

definition BASE_URL :: string where
  "BASE_URL = ''https://www.avito.ma''"

definition LISTING_URL :: string where
  "LISTING_URL = ''https://www.avito.ma/fr/maroc/immobilier''"

definition MAX_PAGES :: nat where
  "MAX_PAGES = 10"

definition MAX_LINKS :: nat where
  "MAX_LINKS = 300"

text \<open>
  The collaborators of one run: \<open>requests.get\<close> followed by \<open>raise_for_status\<close> (the
  body of the response, or what was raised), the two parsers behind \<open>BeautifulSoup\<close>,
  \<open>urljoin\<close>, \<open>datetime.fromisoformat\<close> (\<open>None\<close> when it raises), what the browsing
  session shows for a URL, the identifier that \<open>uuid4\<close> draws for the \<open>i\<close>-th link and
  the clock read while the \<open>i\<close>-th link is processed; then what \<open>create_driver()\<close>,
  \<open>driver.quit()\<close>, the \<open>time.sleep\<close> after the \<open>i\<close>-th link and the \<open>open\<close> of
  the output file raise, if anything. Printing is taken not to raise.
\<close>

record world =
  requests_get :: "string \<Rightarrow> raised + string"
  html_parser :: "string \<Rightarrow> node"
  lxml_parser :: "string \<Rightarrow> node"
  urljoin :: "string \<Rightarrow> string \<Rightarrow> string"
  fromisoformat :: "string \<Rightarrow> datetime option"
  browse :: "string \<Rightarrow> page_view"
  uuid4 :: "nat \<Rightarrow> string"
  clock :: "nat \<Rightarrow> datetime"
  create_driver :: "raised option"
  quit_driver :: "raised option"
  pause :: "nat \<Rightarrow> raised option"
  open_output :: "raised option"

subsection \<open>Link discovery: \<open>get_links\<close>\<close>

text \<open>
  \<open>re.search(r"_\d+\.htm$", href)\<close>: an underscore, one or more digits and \<open>.htm\<close>
  at the end of the string, or just before a line feed that ends the string.
\<close>

definition ends_detail :: "string \<Rightarrow> bool" where
  "ends_detail s =
     (suffix ''.htm'' s \<and>
      (let r = drop 4 (rev s)
       in takeWhile isdigit r \<noteq> [] \<and>
          (case dropWhile isdigit r of [] \<Rightarrow> False | c # _ \<Rightarrow> c = CHR ''_'')))"

definition detail_pattern :: "string \<Rightarrow> bool" where
  "detail_pattern s =
     (ends_detail s \<or> (s \<noteq> [] \<and> last s = CHR 0x0A \<and> ends_detail (butlast s)))"

text \<open>\<open>href.split("?")[0]\<close>.\<close>

definition split_query :: "string \<Rightarrow> string" where
  "split_query href = takeWhile (\<lambda>c. c \<noteq> CHR ''?'') href"

text \<open>\<open>href.startswith("/")\<close>.\<close>

definition startswith_slash :: "string \<Rightarrow> bool" where
  "startswith_slash href = prefix ''/'' href"

text \<open>The anchors of a page: \<open>soup.find_all("a", href=True)\<close>, each read as \<open>a["href"]\<close>.\<close>

definition anchor_hrefs :: "node \<Rightarrow> string list" where
  "anchor_hrefs soup =
     List.map_filter (\<lambda>a. get_attr a ''href'')
       (find_all (\<lambda>n. is_tag ''a'' n \<and> get_attr n ''href'' \<noteq> None) soup)"

text \<open>The target as it is tested against the pattern.\<close>

definition resolve :: "(string \<Rightarrow> string \<Rightarrow> string) \<Rightarrow> string \<Rightarrow> string" where
  "resolve join href = (if startswith_slash href then join BASE_URL href else href)"

text \<open>
  The body of the loop over the anchors of one page, on \<open>links\<close> and \<open>new_found\<close>.
\<close>

definition add_link ::
  "(string \<Rightarrow> string \<Rightarrow> string) \<Rightarrow> string \<Rightarrow> string list \<times> nat \<Rightarrow> string list \<times> nat" where
  "add_link join a st =
     (case st of
        (links, new_found) \<Rightarrow>
          (let href = resolve join a
           in if detail_pattern href
              then (let href = split_query href
                    in if href \<notin> set links then (links @ [href], new_found + 1)
                       else (links, new_found))
              else (links, new_found)))"

text \<open>
  The loop over the anchors of one page: the test \<open>len(links) >= MAX_LINKS\<close> comes
  after each anchor and leaves the loop.
\<close>

fun scan_anchors ::
  "(string \<Rightarrow> string \<Rightarrow> string) \<Rightarrow> nat \<Rightarrow> string list \<Rightarrow> string list \<Rightarrow> nat
     \<Rightarrow> string list \<times> nat" where
  "scan_anchors join max_links [] links new_found = (links, new_found)"
| "scan_anchors join max_links (a # as) links new_found =
     (case add_link join a (links, new_found) of
        (links', new_found') \<Rightarrow>
          if length links' \<ge> max_links then (links', new_found')
          else scan_anchors join max_links as links' new_found')"

text \<open>
  What the loop over the pages prints, as a log: a page whose fetch raised, or a page
  that was scanned, with its \<open>new_found\<close>.
\<close>

datatype page_event = Fetch_failed nat | Scanned nat nat

text \<open>The URL of a listing page: \<open>f"{LISTING_URL}?o={page}"\<close>.\<close>

definition page_url :: "nat \<Rightarrow> string" where
  "page_url page = LISTING_URL @ ''?o='' @ str_nat page"

definition page_anchors :: "world \<Rightarrow> string \<Rightarrow> string list" where
  "page_anchors w html = anchor_hrefs (html_parser w html)"

text \<open>
  The loop \<open>for page in range(1, MAX_PAGES + 1)\<close>: the arguments are the page number,
  the number of pages left, the links and the log so far. An exception that
  \<open>except Exception\<close> does not catch leaves \<open>get_links\<close>.
\<close>

fun pages_loop ::
  "world \<Rightarrow> nat \<Rightarrow> nat \<Rightarrow> nat \<Rightarrow> string list \<Rightarrow> page_event list
     \<Rightarrow> raised + (string list \<times> page_event list)" where
  "pages_loop w max_links page 0 links log = Inr (links, log)"
| "pages_loop w max_links page (Suc k) links log =
     (case requests_get w (page_url page) of
        Inl Exception \<Rightarrow> Inr (links, log @ [Fetch_failed page])
      | Inl KeyboardInterrupt \<Rightarrow> Inl KeyboardInterrupt
      | Inr html \<Rightarrow>
          (case scan_anchors (urljoin w) max_links (page_anchors w html) links 0 of
             (links', new_found) \<Rightarrow>
               if new_found = 0 then Inr (links', log @ [Scanned page new_found])
               else pages_loop w max_links (Suc page) k links' (log @ [Scanned page new_found])))"

definition get_links_log ::
  "world \<Rightarrow> nat \<Rightarrow> nat \<Rightarrow> raised + (string list \<times> page_event list)" where
  "get_links_log w max_pages max_links = pages_loop w max_links 1 max_pages [] []"

definition get_links :: "world \<Rightarrow> nat \<Rightarrow> nat \<Rightarrow> raised + string list" where
  "get_links w max_pages max_links = map_sum id fst (get_links_log w max_pages max_links)"

text \<open>An absolute URL: it starts with a scheme and \<open>//\<close>.\<close>

definition is_absolute :: "string \<Rightarrow> bool" where
  "is_absolute u = (prefix ''https://'' u \<or> prefix ''http://'' u)"

text \<open>
  How an element of the result arises from an anchor target: the target, resolved when
  it starts with a slash, matches the pattern, and the element is what stands before
  its first question mark.
\<close>

definition link_of_target :: "world \<Rightarrow> string \<Rightarrow> string \<Rightarrow> bool" where
  "link_of_target w a l =
     (detail_pattern (resolve (urljoin w) a) \<and> l = split_query (resolve (urljoin w) a))"

fun new_found_of :: "page_event \<Rightarrow> nat" where
  "new_found_of (Fetch_failed page) = 0"
| "new_found_of (Scanned page n) = n"

fun page_of :: "page_event \<Rightarrow> nat" where
  "page_of (Fetch_failed page) = page"
| "page_of (Scanned page n) = page"

subsection \<open>Publication time: \<open>parse_publication_date\<close>\<close>

text \<open>\<open>datetime_attr.replace("Z", "+00:00")\<close>.\<close>

definition replace_Z :: "string \<Rightarrow> string" where
  "replace_Z s = concat (map (\<lambda>c. if c = CHR ''Z'' then ''+00:00'' else [c]) s)"

text \<open>
  The first attempt, on the \<open>datetime\<close> attribute of the \<open>time\<close> element: \<open>None\<close>
  when the attribute is missing or empty or does not parse, and the text path is taken.
\<close>

definition iso_attribute :: "world \<Rightarrow> node \<Rightarrow> string option" where
  "iso_attribute w time_tag =
     (case get_attr time_tag ''datetime'' of
        None \<Rightarrow> None
      | Some datetime_attr \<Rightarrow>
          if datetime_attr = [] then None
          else map_option strftime (fromisoformat w (replace_Z datetime_attr)))"

text \<open>
  The fallback on the visible text, inside \<open>try\<close>: the \<open>OverflowError\<close> of
  \<open>timedelta\<close> and of the subtraction (and the \<open>ValueError\<close> of \<open>int\<close> on a digit
  string too long to convert, which would overflow as well) are caught and the text
  is returned.
\<close>

definition relative_time :: "datetime \<Rightarrow> string \<Rightarrow> string" where
  "relative_time now text =
     (let n = (case first_digits text of None \<Rightarrow> 1 | Some ds \<Rightarrow> int_of_digits ds);
          delta =
            (if contains ''minute'' text then Some (timedelta 0 0 n)
             else if contains ''heure'' text then Some (timedelta 0 n 0)
             else if contains ''jour'' text then Some (timedelta n 0 0)
             else if contains ''mois'' text then Some (timedelta (n * 30) 0 0)
             else if contains ''an'' text then Some (timedelta (n * 365) 0 0)
             else None)
      in case delta of
           None \<Rightarrow> text
         | Some None \<Rightarrow> text
         | Some (Some d) \<Rightarrow>
             (case datetime_sub now d of None \<Rightarrow> text | Some dt \<Rightarrow> strftime dt))"

definition parse_publication_date :: "world \<Rightarrow> datetime \<Rightarrow> node \<Rightarrow> string" where
  "parse_publication_date w now soup =
     (case find_first (is_tag ''time'') soup of
        None \<Rightarrow> []
      | Some time_tag \<Rightarrow>
          (case iso_attribute w time_tag of
             Some formatted \<Rightarrow> formatted
           | None \<Rightarrow> relative_time now (lower (clean_text (Some (get_text time_tag))))))"

text \<open>
  The fallback in the words of the specification, with the overflow made explicit: the
  units and their spans in the order of priority, the first unit found in the text
  decides, and the result is the moment that lies the span before now, formatted, when
  the span and that moment can be represented, and the text otherwise.
\<close>

definition unit_spans :: "nat \<Rightarrow> (string \<times> nat option) list" where
  "unit_spans n =
     [(''minute'', timedelta 0 0 n),
      (''heure'', timedelta 0 n 0),
      (''jour'', timedelta n 0 0),
      (''mois'', timedelta (n * 30) 0 0),
      (''an'', timedelta (n * 365) 0 0)]"

definition moment_before :: "datetime \<Rightarrow> nat option \<Rightarrow> string \<Rightarrow> string" where
  "moment_before now span text =
     (case span of
        None \<Rightarrow> text
      | Some d \<Rightarrow> (case datetime_sub now d of None \<Rightarrow> text | Some dt \<Rightarrow> strftime dt))"

definition resolve_relative_spec :: "datetime \<Rightarrow> string \<Rightarrow> string" where
  "resolve_relative_spec now text =
     (let n = (case first_digits text of None \<Rightarrow> 1 | Some ds \<Rightarrow> int_of_digits ds)
      in case List.find (\<lambda>(u, span). contains u text) (unit_spans n) of
           None \<Rightarrow> text
         | Some (u, span) \<Rightarrow> moment_before now span text)"

subsection \<open>Record extraction: \<open>parse_publication\<close>\<close>

text \<open>\<open>sep.join(xs)\<close>.\<close>

fun join_with :: "string \<Rightarrow> string list \<Rightarrow> string" where
  "join_with sep [] = []"
| "join_with sep [x] = x"
| "join_with sep (x # y # ys) = x @ sep @ join_with sep (y # ys)"

text \<open>
  \<open>json.dumps(value, ensure_ascii=False)\<close> for a list of strings and for a dictionary
  of strings: quotation mark, backslash and the control characters are escaped.
\<close>

definition hex_digit :: "nat \<Rightarrow> char" where
  "hex_digit d = ''0123456789abcdef'' ! d"

definition json_escape :: "char \<Rightarrow> string" where
  "json_escape c =
     (let n = (of_char c :: nat)
      in if n = 34 then [CHR 0x5C, CHR 0x22]
         else if n = 92 then [CHR 0x5C, CHR 0x5C]
         else if n = 10 then [CHR 0x5C, CHR ''n'']
         else if n = 13 then [CHR 0x5C, CHR ''r'']
         else if n = 9 then [CHR 0x5C, CHR ''t'']
         else if n = 8 then [CHR 0x5C, CHR ''b'']
         else if n = 12 then [CHR 0x5C, CHR ''f'']
         else if n < 32 then [CHR 0x5C, CHR ''u'', CHR ''0'', CHR ''0'', hex_digit (n div 16), hex_digit (n mod 16)]
         else [c])"

definition json_string :: "string \<Rightarrow> string" where
  "json_string s = CHR 0x22 # concat (map json_escape s) @ [CHR 0x22]"

definition json_list :: "string list \<Rightarrow> string" where
  "json_list xs = ''['' @ join_with '', '' (map json_string xs) @ '']''"

definition json_dict :: "(string \<times> string) list \<Rightarrow> string" where
  "json_dict d =
     ''{'' @ join_with '', '' (map (\<lambda>(k, v). json_string k @ '': '' @ json_string v) d) @ ''}''"

text \<open>\<open>d[k] = v\<close> on a dictionary kept in insertion order.\<close>

fun dict_set :: "(string \<times> string) list \<Rightarrow> string \<Rightarrow> string \<Rightarrow> (string \<times> string) list" where
  "dict_set [] k v = [(k, v)]"
| "dict_set ((k', v') # d) k v = (if k' = k then (k', v) # d else (k', v') # dict_set d k v)"

text \<open>\<open>clean_text(el.get_text()) if el else ""\<close>.\<close>

definition field_text :: "node option \<Rightarrow> string" where
  "field_text el = (case el of None \<Rightarrow> [] | Some e \<Rightarrow> clean_text (Some (get_text e)))"

text \<open>
  \<open>re.compile(r"Cat[e\<acute>e]gorie", re.I).search(s)\<close>, the second letter of the class
  being U+00E9: the pattern at the head of a string, and anywhere in it.
\<close>

definition category_at :: "string \<Rightarrow> bool" where
  "category_at s =
     (case s of
        c0 # c1 # c2 # c3 # rest \<Rightarrow>
          lower [c0, c1, c2] = ''cat'' \<and> lower_char c3 \<in> set [CHR ''e'', CHR 0xE9]
            \<and> prefix ''gorie'' (lower rest)
      | _ \<Rightarrow> False)"

fun category_re :: "string \<Rightarrow> bool" where
  "category_re [] = False"
| "category_re (c # cs) = (category_at (c # cs) \<or> category_re cs)"

definition is_category_label :: "node \<Rightarrow> bool" where
  "is_category_label n =
     (is_tag ''span'' n \<and> (case node_string n of None \<Rightarrow> False | Some s \<Rightarrow> category_re s))"

definition category :: "node \<Rightarrow> string" where
  "category soup =
     (case find_then_next is_category_label (is_tag ''span'') soup of
        None \<Rightarrow> []
      | Some (cat_label, cat_val) \<Rightarrow> field_text cat_val)"

text \<open>\<open>re.sub(pat, "", s)\<close> for a pattern without metacharacters.\<close>

function remove_sub :: "string \<Rightarrow> string \<Rightarrow> string" where
  "remove_sub pat [] = []"
| "remove_sub pat (c # cs) =
     (if pat \<noteq> [] \<and> prefix pat (c # cs) then remove_sub pat (drop (length pat) (c # cs))
      else c # remove_sub pat cs)"
  by pat_completeness auto
termination
  by (relation "measure (\<lambda>(pat, s). length s)") (auto simp: Suc_le_eq)

definition breadcrumb :: "node \<Rightarrow> string list" where
  "breadcrumb soup =
     (case find_first (is_tag ''ol'') soup of
        None \<Rightarrow> []
      | Some ol \<Rightarrow>
          filter (\<lambda>text. text \<noteq> [])
            (map (\<lambda>li. strip (remove_sub ''Home Icon'' (clean_text (Some (get_text li)))))
               (find_all (is_tag ''li'') ol)))"

definition is_property_block :: "node \<Rightarrow> bool" where
  "is_property_block n = (is_tag ''div'' n \<and> class_matches ''sc-cd1c365e-1'' n)"

definition add_property :: "(string \<times> string) list \<Rightarrow> node \<Rightarrow> (string \<times> string) list" where
  "add_property props param =
     (case (find_first (\<lambda>n. is_tag ''span'' n \<and> class_matches ''fjZBup'' n) param,
            find_first (\<lambda>n. is_tag ''span'' n \<and> class_matches ''bXFCIH'' n) param) of
        (Some val, Some label) \<Rightarrow>
          dict_set props (clean_text (Some (get_text label))) (clean_text (Some (get_text val)))
      | _ \<Rightarrow> props)"

definition properties :: "node \<Rightarrow> (string \<times> string) list" where
  "properties soup = foldl add_property [] (find_all is_property_block soup)"

definition add_image :: "string list \<Rightarrow> node \<Rightarrow> string list" where
  "add_image imgs img =
     (case get_attr img ''src'' of
        None \<Rightarrow> imgs
      | Some src \<Rightarrow>
          if src \<noteq> [] \<and> contains ''content.avito.ma'' src \<and> \<not> contains ''?t=card'' src
               \<and> src \<notin> set imgs
          then imgs @ [src] else imgs)"

definition images :: "node \<Rightarrow> string list" where
  "images soup = foldl add_image [] (find_all (is_tag ''img'') soup)"

text \<open>
  The part of \<open>parse_publication\<close> after the page has been fetched: the dictionary
  \<open>data\<close>, in insertion order.
\<close>

definition extract_record ::
  "world \<Rightarrow> datetime \<Rightarrow> string \<Rightarrow> string \<Rightarrow> string list \<Rightarrow> string \<Rightarrow> (string \<times> string) list" where
  "extract_record w now uid url equipments html =
     (let soup = lxml_parser w html
      in [(''id'', uid),
          (''url'', url),
          (''title'', field_text (find_first (is_tag ''h1'') soup)),
          (''price'', field_text
             (find_first (\<lambda>n. is_tag ''p'' n \<and> class_matches ''sc-16573058-12'' n) soup)),
          (''location'', field_text
             (find_first (\<lambda>n. is_tag ''span'' n \<and> class_matches ''sc-16573058-17'' n) soup)),
          (''publication_time'', parse_publication_date w now soup),
          (''seller'', field_text
             (find_first (\<lambda>n. get_attr n ''data-testid'' = Some ''SellerName'') soup)),
          (''category'', category soup),
          (''description'', field_text
             (find_first (\<lambda>n. is_tag ''div'' n \<and> class_matches ''sc-9bb253d7-0'' n) soup)),
          (''breadcrumb'', json_list (breadcrumb soup)),
          (''properties'', json_dict (properties soup)),
          (''equipments'', json_list equipments),
          (''images'', json_list (images soup))])"

text \<open>
  \<open>parse_publication(driver, url)\<close> for the \<open>i\<close>-th link: what it returns (\<open>None\<close>
  when the page source is empty) or what it raises.
\<close>

definition parse_publication ::
  "world \<Rightarrow> nat \<Rightarrow> string \<Rightarrow> raised + (string \<times> string) list option" where
  "parse_publication w i url =
     (case fetch_page_with_selenium (browse w url) of
        Inl e \<Rightarrow> Inl e
      | Inr (html, equipments) \<Rightarrow>
          if html = [] then Inr None
          else Inr (Some (extract_record w (clock w i) (uuid4 w i) url equipments html)))"

subsection \<open>Persistence: \<open>save_csv\<close>\<close>

definition keys :: "string list" where
  "keys = [''id'', ''url'', ''title'', ''price'', ''location'',
           ''publication_time'', ''breadcrumb'', ''category'',
           ''seller'', ''description'', ''properties'', ''equipments'', ''images'']"

text \<open>
  The \<open>csv\<close> writer with \<open>QUOTE_ALL\<close>: every field stands between quotation marks,
  a quotation mark inside a field is doubled, fields are separated by commas and a row
  ends with CR LF.
\<close>

definition csv_field :: "string \<Rightarrow> string" where
  "csv_field s = CHR 0x22 # concat (map (\<lambda>c. if c = CHR 0x22 then [CHR 0x22, CHR 0x22] else [c]) s)
                   @ [CHR 0x22]"

definition csv_row :: "string list \<Rightarrow> string" where
  "csv_row cells = join_with '','' (map csv_field cells) @ [CHR 0x0D, CHR 0x0A]"

text \<open>The value a row holds for a field name, the empty string when it holds none.\<close>

definition field :: "(string \<times> string) list \<Rightarrow> string \<Rightarrow> string" where
  "field row k = (case map_of row k of None \<Rightarrow> [] | Some v \<Rightarrow> v)"

text \<open>
  \<open>DictWriter.writerow(row)\<close>: a row with a key that is not a field name raises
  \<open>ValueError\<close>; otherwise the values are written in the order of the field names.
\<close>

definition writerow :: "(string \<times> string) list \<Rightarrow> raised + string" where
  "writerow row =
     (if list_ex (\<lambda>k. k \<notin> set keys) (map fst row) then Inl Exception
      else Inr (csv_row (map (field row) keys)))"

fun write_rows :: "(string \<times> string) list list \<Rightarrow> string \<Rightarrow> raised + string" where
  "write_rows [] out = Inr out"
| "write_rows (row # rows) out =
     (case writerow row of Inl e \<Rightarrow> Inl e | Inr line \<Rightarrow> write_rows rows (out @ line))"

text \<open>
  \<open>save_csv(data_list)\<close> once the output file is open: the text written to it, or what
  is raised.
\<close>

definition save_csv :: "(string \<times> string) list list \<Rightarrow> raised + string" where
  "save_csv data_list = write_rows data_list (csv_row keys)"

text \<open>The field order of the record as the specification lists it.\<close>

definition spec_field_order :: "string list" where
  "spec_field_order = [''id'', ''url'', ''title'', ''price'', ''location'',
                       ''publication_time'', ''seller'', ''category'', ''description'',
                       ''breadcrumb'', ''properties'', ''equipments'', ''images'']"

subsection \<open>The run: \<open>main\<close>\<close>

text \<open>\<open>save_csv(data_list)\<close> with the \<open>open\<close> of the output file.\<close>

definition save_csv_file :: "world \<Rightarrow> (string \<times> string) list list \<Rightarrow> raised + string" where
  "save_csv_file w data_list =
     (case open_output w of Some e \<Rightarrow> Inl e | None \<Rightarrow> save_csv data_list)"

text \<open>
  The inner \<open>try\<close> of the loop over the links, on the outcome of \<open>parse_publication\<close>:
  an exception that \<open>except Exception\<close> catches skips the link, any other one goes on,
  and a record is appended to \<open>results\<close>.
\<close>

fun after_link ::
  "raised + (string \<times> string) list option \<Rightarrow> (string \<times> string) list list
     \<Rightarrow> raised option \<times> (string \<times> string) list list" where
  "after_link (Inl Exception) results = (None, results)"
| "after_link (Inl KeyboardInterrupt) results = (Some KeyboardInterrupt, results)"
| "after_link (Inr None) results = (None, results)"
| "after_link (Inr (Some data)) results = (None, results @ [data])"

text \<open>
  The loop over the links inside \<open>try ... finally\<close>, with \<open>i\<close> counting from 1: the
  inner \<open>try\<close>, then the pause. What the inner \<open>try\<close> does not catch and what the
  pause raises leave the loop. The result is what left the loop, if anything, and
  \<open>results\<close>.
\<close>

fun links_loop ::
  "world \<Rightarrow> nat \<Rightarrow> string list \<Rightarrow> (string \<times> string) list list
     \<Rightarrow> raised option \<times> (string \<times> string) list list" where
  "links_loop w i [] results = (None, results)"
| "links_loop w i (link # links) results =
     (case after_link (parse_publication w i link) results of
        (Some e, results') \<Rightarrow> (Some e, results')
      | (None, results') \<Rightarrow>
          (case pause w i of
             Some e \<Rightarrow> (Some e, results')
           | None \<Rightarrow> links_loop w (Suc i) links results'))"

text \<open>
  What a run does to its collaborators, in the order of the calls: \<open>create_driver()\<close>
  returned a session, \<open>driver.quit()\<close> was called, \<open>save_csv\<close> was called with a list
  of records.
\<close>

datatype effect = Created | Quit | Save "(string \<times> string) list list"

text \<open>
  \<open>driver = create_driver()\<close>, ahead of the \<open>try\<close>: the effects so far, or what is
  raised.
\<close>

definition start_session :: "world \<Rightarrow> raised + effect list" where
  "start_session w = (case create_driver w of Some e \<Rightarrow> Inl e | None \<Rightarrow> Inr [Created])"

text \<open>
  The \<open>finally\<close> block: \<open>driver.quit()\<close> is called whatever left the loop, and what it
  raises replaces what was on its way out.
\<close>

definition end_session ::
  "world \<Rightarrow> effect list \<Rightarrow> raised option \<Rightarrow> effect list \<times> raised option" where
  "end_session w started pending =
     (started @ [Quit], (case quit_driver w of Some e \<Rightarrow> Some e | None \<Rightarrow> pending))"

text \<open>
  A run: its effects, the list \<open>results\<close> when the loop was left, the text written to
  the output file, and the exception that left \<open>main\<close>, if any.
\<close>

record run =
  effects :: "effect list"
  collected :: "(string \<times> string) list list"
  written :: "string option"
  escaped :: "raised option"

definition main :: "world \<Rightarrow> run" where
  "main w =
     (case get_links w MAX_PAGES MAX_LINKS of
        Inl e \<Rightarrow> \<lparr>effects = [], collected = [], written = None, escaped = Some e\<rparr>
      | Inr links \<Rightarrow>
          if links = [] then \<lparr>effects = [], collected = [], written = None, escaped = None\<rparr>
          else
            (case start_session w of
               Inl e \<Rightarrow> \<lparr>effects = [], collected = [], written = None, escaped = Some e\<rparr>
             | Inr started \<Rightarrow>
                 (case links_loop w 1 links [] of
                    (pending, results) \<Rightarrow>
                      (case end_session w started pending of
                         (ended, Some e) \<Rightarrow>
                           \<lparr>effects = ended, collected = results, written = None,
                            escaped = Some e\<rparr>
                       | (ended, None) \<Rightarrow>
                           (case save_csv_file w results of
                              Inl e \<Rightarrow>
                                \<lparr>effects = ended @ [Save results], collected = results,
                                 written = None, escaped = Some e\<rparr>
                            | Inr out \<Rightarrow>
                                \<lparr>effects = ended @ [Save results], collected = results,
                                 written = Some out, escaped = None\<rparr>)))))"

text \<open>
  The number of sessions a run created, the number of times it called \<open>quit\<close>, and the
  lists it handed to \<open>save_csv\<close>, one for each call.
\<close>

definition created :: "run \<Rightarrow> nat" where
  "created r = length (filter (\<lambda>e. e = Created) (effects r))"

definition closed :: "run \<Rightarrow> nat" where
  "closed r = length (filter (\<lambda>e. e = Quit) (effects r))"

definition persisted :: "run \<Rightarrow> (string \<times> string) list list list" where
  "persisted r = List.map_filter (\<lambda>e. case e of Save rows \<Rightarrow> Some rows | _ \<Rightarrow> None) (effects r)"

text \<open>
  The records of the links that were processed with success, in the order of the links:
  what the specification expects a run to yield.
\<close>

fun successful_records :: "world \<Rightarrow> nat \<Rightarrow> string list \<Rightarrow> (string \<times> string) list list" where
  "successful_records w i [] = []"
| "successful_records w i (link # links) =
     (case parse_publication w i link of
        Inr (Some data) \<Rightarrow> data # successful_records w (Suc i) links
      | _ \<Rightarrow> successful_records w (Suc i) links)"

text \<open>
  The loop over the links is left by an exception: one that \<open>except Exception\<close> does not
  catch is raised while a link is processed, or the pause after a link raises.
\<close>

fun interrupted :: "world \<Rightarrow> nat \<Rightarrow> string list \<Rightarrow> bool" where
  "interrupted w i [] = False"
| "interrupted w i (link # links) =
     (parse_publication w i link = Inl KeyboardInterrupt \<or> pause w i \<noteq> None
        \<or> interrupted w (Suc i) links)"

subsection \<open>Concrete worlds\<close>

text \<open>
  A world in which nothing is reachable: every request fails, every page is empty. The
  examples below change the fields they need.
\<close>

definition blank_page :: page_view where
  "blank_page =
     \<lparr>nav = None, find_h1 = (\<lambda>k. Inr True), scroll_script = None, click_script = None,
      equip_count = (\<lambda>k. Inr 0), equip_imgs = Inr [], page_source = Inr []\<rparr>"

definition epoch :: datetime where
  "epoch = \<lparr>year = 1970, month = 1, day = 1, hour = 0, minute = 0, second = 0, microsecond = 0\<rparr>"

definition quiet_world :: world where
  "quiet_world =
     \<lparr>requests_get = (\<lambda>url. Inl Exception),
      html_parser = (\<lambda>html. Elem ''[document]'' [] []),
      lxml_parser = (\<lambda>html. Elem ''[document]'' [] []),
      urljoin = (\<lambda>base url. base @ url),
      fromisoformat = (\<lambda>s. None),
      browse = (\<lambda>url. blank_page),
      uuid4 = (\<lambda>i. ''00000000-0000-4000-8000-'' @ zero_pad 12 i),
      clock = (\<lambda>i. epoch),
      create_driver = None,
      quit_driver = None,
      pause = (\<lambda>i. None),
      open_output = None\<rparr>"

text \<open>A document whose anchors carry the given targets.\<close>

definition anchors_doc :: "string list \<Rightarrow> node" where
  "anchors_doc hrefs = Elem ''[document]'' [] (map (\<lambda>h. Elem ''a'' [(''href'', h)] []) hrefs)"

text \<open>Every listing page shows the same anchors.\<close>

definition same_page_world :: "string list \<Rightarrow> world" where
  "same_page_world hrefs =
     quiet_world\<lparr>requests_get := (\<lambda>url. Inr ''<html>''),
                 html_parser := (\<lambda>html. anchors_doc hrefs)\<rparr>"

definition example_anchors :: "string list" where
  "example_anchors = [''/fr/maroc/a_12345.htm?x=1'', ''/fr/maroc/a_12345.htm'', ''/fr/maroc/other'']"

text \<open>
  The first listing page shows 300 distinct detail links, every later page starts with
  one more.
\<close>

definition cap_link :: "nat \<Rightarrow> string" where
  "cap_link i = ''https://www.avito.ma/fr/maroc/a_'' @ replicate (Suc i) CHR ''1'' @ ''.htm''"

definition cap_world :: world where
  "cap_world =
     quiet_world\<lparr>requests_get := (\<lambda>url. if url = page_url 1 then Inr ''first'' else Inr ''later''),
                 html_parser := (\<lambda>html. if html = ''first'' then anchors_doc (map cap_link [0..<300])
                                         else anchors_doc [cap_link 300])\<rparr>"

text \<open>
  A session that shows every page at once, with no equipment images and the given page
  source, and a world whose detail pages all look like that.
\<close>

definition static_page :: "string \<Rightarrow> page_view" where
  "static_page html = blank_page\<lparr>page_source := Inr html\<rparr>"

definition static_world :: "string \<Rightarrow> node \<Rightarrow> world" where
  "static_world html doc =
     quiet_world\<lparr>browse := (\<lambda>url. static_page html), lxml_parser := (\<lambda>h. doc)\<rparr>"

text \<open>A rendered document without any of the markers the extractor looks for.\<close>

definition bare_doc :: node where
  "bare_doc = Elem ''[document]'' [] [Elem ''html'' [] [Elem ''body'' [] [Text ''Not found'']]]"



text \<open>One detail link on the listing page, and a session that cannot load any page.\<close>

definition failing_world :: world where
  "failing_world =
     (same_page_world [''/fr/maroc/a_1.htm''])
       \<lparr>browse := (\<lambda>url. blank_page\<lparr>nav := Some Exception\<rparr>)\<rparr>"

section \<open>Properties\<close>

subsection \<open>Text normaliser\<close>

lemma isspace_space [simp]: "isspace CHR '' ''"
  by (simp add: isspace_def)

lemma isspace_nl_cr_tab [simp]:
  "isspace (CHR 0x0A)" "isspace (CHR 0x0D)" "isspace (CHR 0x09)"
  by (simp_all add: isspace_def)

lemma isspace_replace_char:
  "isspace new \<Longrightarrow> isspace old \<Longrightarrow> (isspace \<circ> (\<lambda>c. if c = old then new else c)) = isspace"
  by (auto simp: fun_eq_iff)

lemma sub_spaces_replace_char:
  "isspace new \<Longrightarrow> isspace old \<Longrightarrow> sub_spaces (replace_char old new s) = sub_spaces s"
proof (induction s rule: sub_spaces.induct)
  case 1
  then show ?case by (simp add: replace_char_def)
next
  case (2 c cs)
  then show ?case
    by (auto simp: replace_char_def dropWhile_map isspace_replace_char)
qed

lemma sub_spaces_nonspace_prefix:
  "\<forall>c \<in> set w. \<not> isspace c \<Longrightarrow> sub_spaces (w @ r) = w @ sub_spaces r"
  by (induction w) auto

lemma sub_spaces_no_lead:
  "s = [] \<or> \<not> isspace (hd s) \<Longrightarrow> dropWhile isspace (sub_spaces s) = sub_spaces s"
  by (cases s) auto

lemma dropWhile_no_lead: "dropWhile P s = [] \<or> \<not> P (hd (dropWhile P s))"
  using hd_dropWhile [of P s] by blast

lemma sub_spaces_lstrip:
  "dropWhile isspace (sub_spaces s) = sub_spaces (dropWhile isspace s)"
proof (cases s)
  case Nil
  then show ?thesis by simp
next
  case (Cons c cs)
  show ?thesis
  proof (cases "isspace c")
    case True
    with Cons show ?thesis
      by (simp add: sub_spaces_no_lead [OF dropWhile_no_lead [of isspace cs]])
  next
    case False
    with Cons show ?thesis by simp
  qed
qed

lemma rstrip_append:
  "rstrip (a @ b) = (if \<forall>c \<in> set b. isspace c then rstrip a else a @ rstrip b)"
  by (simp add: rstrip_def dropWhile_append)

lemma rstrip_nonspace_last:
  "w \<noteq> [] \<Longrightarrow> \<not> isspace (last w) \<Longrightarrow> rstrip w = w"
  by (cases w rule: rev_cases) (auto simp: rstrip_def)

lemma ws_words_Nil_iff: "ws_words s = [] \<longleftrightarrow> dropWhile isspace s = []"
proof (cases "dropWhile isspace s")
  case Nil
  then show ?thesis by (subst ws_words.simps) (simp only: list.case simp_thms)
next
  case (Cons c cs)
  then show ?thesis by (subst ws_words.simps) (simp only: list.case list.distinct simp_thms)
qed

lemma sub_spaces_Nil_iff [simp]: "sub_spaces s = [] \<longleftrightarrow> s = []"
  by (cases s) auto

lemma strip_sub_spaces: "strip (sub_spaces s) = unwords (ws_words s)"
proof (induction s rule: ws_words.induct)
  case (1 s)
  show ?case
  proof (cases "dropWhile isspace s")
    case Nil
    have "strip (sub_spaces s) = rstrip (sub_spaces (dropWhile isspace s))"
      by (simp only: strip_def lstrip_def sub_spaces_lstrip)
    also have "\<dots> = []"
      by (simp only: Nil sub_spaces.simps rstrip_def rev.simps dropWhile.simps)
    finally show ?thesis
      using Nil ws_words_Nil_iff [of s] by simp
  next
    case (Cons c cs)
    define w where "w = c # takeWhile (\<lambda>x. \<not> isspace x) cs"
    define r where "r = dropWhile (\<lambda>x. \<not> isspace x) cs"
    have c: "\<not> isspace c"
      using Cons by (simp add: dropWhile_eq_Cons_conv)
    have w_ns: "\<forall>x \<in> set w. \<not> isspace x"
      using c by (auto simp: w_def dest: set_takeWhileD)
    have w_last: "w \<noteq> []" "\<not> isspace (last w)"
      using w_ns by (auto simp: w_def)
    have split: "dropWhile isspace s = w @ r"
      by (simp add: Cons w_def r_def)
    have words: "ws_words s = w # ws_words r"
      by (subst ws_words.simps) (simp add: Cons w_def r_def)
    have IH: "strip (sub_spaces r) = unwords (ws_words r)"
      using "1.IH" [OF Cons] by (simp add: r_def)
    have lhs: "strip (sub_spaces s) = rstrip (w @ sub_spaces r)"
      by (simp add: strip_def lstrip_def sub_spaces_lstrip split
          sub_spaces_nonspace_prefix [OF w_ns])
    show ?thesis
    proof (cases r)
      case Nil
      then show ?thesis
        using lhs words w_last by (simp add: rstrip_nonspace_last ws_words_Nil_iff [THEN iffD2])
    next
      case (Cons d ds)
      have d: "isspace d"
        using Cons by (simp add: r_def dropWhile_eq_Cons_conv)
      define t where "t = sub_spaces (dropWhile isspace ds)"
      have sr: "sub_spaces r = CHR '' '' # t"
        using Cons d by (simp add: t_def)
      have lt: "lstrip t = t"
        unfolding t_def lstrip_def by (rule sub_spaces_no_lead [OF dropWhile_no_lead [of isspace ds]])
      have IH': "rstrip t = unwords (ws_words r)"
        using IH by (simp add: strip_def sr lstrip_def lt [unfolded lstrip_def])
      have wr: "ws_words r = [] \<longleftrightarrow> t = []"
        using Cons d by (simp add: ws_words_Nil_iff t_def)
      show ?thesis
      proof (cases "t = []")
        case True
        then show ?thesis
          using lhs words sr wr w_last by (simp add: rstrip_append rstrip_nonspace_last)
      next
        case False
        have t_hd: "\<not> isspace (hd t)"
          using False dropWhile_no_lead [of isspace ds]
          by (cases "dropWhile isspace ds") (auto simp: t_def)
        then have "\<not> (\<forall>c \<in> set (CHR '' '' # t). isspace c)"
          using False by (cases t) auto
        then have "rstrip (w @ CHR '' '' # t) = w @ rstrip (CHR '' '' # t)"
          by (simp only: rstrip_append if_False)
        also have "rstrip (CHR '' '' # t) = CHR '' '' # rstrip t"
          using False rstrip_append [of "[CHR '' '']" t] \<open>\<not> (\<forall>c \<in> set (CHR '' '' # t). isspace c)\<close>
          by (auto split: if_splits)
        finally show ?thesis
          using lhs words sr wr False IH' by (cases "ws_words r") auto
      qed
    qed
  qed
qed

lemma ws_words_good:
  "w \<in> set (ws_words s) \<Longrightarrow> w \<noteq> [] \<and> (\<forall>c \<in> set w. \<not> isspace c)"
proof (induction s arbitrary: w rule: ws_words.induct)
  case (1 s)
  show ?case
  proof (cases "dropWhile isspace s")
    case Nil
    then have "ws_words s = []" by (simp only: ws_words_Nil_iff)
    with "1.prems" show ?thesis by simp
  next
    case (Cons c cs)
    have c: "\<not> isspace c"
      using Cons by (simp add: dropWhile_eq_Cons_conv)
    have "ws_words s = (c # takeWhile (\<lambda>x. \<not> isspace x) cs)
            # ws_words (dropWhile (\<lambda>x. \<not> isspace x) cs)"
      by (subst ws_words.simps) (simp add: Cons)
    with "1.prems" consider "w = c # takeWhile (\<lambda>x. \<not> isspace x) cs"
      | "w \<in> set (ws_words (dropWhile (\<lambda>x. \<not> isspace x) cs))"
      by auto
    then show ?thesis
    proof cases
      case 1
      then show ?thesis using c by (auto dest: set_takeWhileD)
    next
      case 2
      then show ?thesis using "1.IH" [OF Cons] by blast
    qed
  qed
qed

lemma ws_words_Nil [simp]: "ws_words [] = []"
  by (simp add: ws_words_Nil_iff)

lemma ws_words_skip: "isspace c \<Longrightarrow> ws_words (c # s) = ws_words s"
  by (subst ws_words.simps, subst (2) ws_words.simps) simp

lemma ws_words_word:
  assumes "w \<noteq> []" "\<forall>c \<in> set w. \<not> isspace c" "r = [] \<or> isspace (hd r)"
  shows "ws_words (w @ r) = w # ws_words r"
proof -
  obtain c cs where w: "w = c # cs" using assms(1) by (cases w) auto
  have c: "\<not> isspace c" and cs: "\<forall>x \<in> set cs. \<not> isspace x"
    using assms(2) w by auto
  have tw: "takeWhile (\<lambda>x. \<not> isspace x) (cs @ r) = cs"
    using cs assms(3) by (cases r) auto
  have dw: "dropWhile (\<lambda>x. \<not> isspace x) (cs @ r) = r"
    using cs assms(3) by (cases r) auto
  show ?thesis
    by (subst ws_words.simps) (simp add: w c tw dw)
qed

lemma ws_words_unwords:
  "\<forall>w \<in> set W. w \<noteq> [] \<and> (\<forall>c \<in> set w. \<not> isspace c) \<Longrightarrow> ws_words (unwords W) = W"
proof (induction W rule: unwords.induct)
  case 1
  show ?case by (simp add: ws_words_Nil_iff)
next
  case (2 w)
  then show ?case
    using ws_words_word [of w "[]"] by (simp add: ws_words_Nil_iff)
next
  case (3 w v ws)
  have "ws_words (w @ CHR '' '' # unwords (v # ws)) = w # ws_words (CHR '' '' # unwords (v # ws))"
    using 3 by (intro ws_words_word) auto
  then show ?case
    using 3 by (simp add: ws_words_skip)
qed

lemma clean_text_Some: "clean_text (Some s) = unwords (ws_words s)"
proof (cases "s = []")
  case True
  then show ?thesis by (simp add: clean_text_def ws_words_Nil_iff)
next
  case False
  then show ?thesis
    by (simp add: clean_text_def sub_spaces_replace_char strip_sub_spaces)
qed

lemma clean_text_idem: "clean_text (Some (clean_text v)) = clean_text v"
proof (cases v)
  case None
  then show ?thesis by (simp add: clean_text_def)
next
  case (Some s)
  have "ws_words (unwords (ws_words s)) = ws_words s"
    by (rule ws_words_unwords) (use ws_words_good in blast)
  then show ?thesis by (simp add: Some clean_text_Some)
qed

text \<open>
  Claim C10. The text normaliser is idempotent, maps the empty string and \<open>None\<close> to
  the empty string, and on every string returns its white-space separated pieces joined
  by single spaces: newlines, carriage returns and tabs count as white space, every run
  of white space becomes one space, and leading and trailing white space is removed.
\<close>

theorem clean_text_normalizer:
  "clean_text (Some (clean_text v)) = clean_text v
   \<and> clean_text (Some []) = []
   \<and> clean_text None = []
   \<and> clean_text (Some s) = normalize_spec s"
proof (intro conjI)
  show "clean_text (Some (clean_text v)) = clean_text v"
    by (rule clean_text_idem)
  show "clean_text (Some []) = []" and "clean_text None = []"
    by (simp_all add: clean_text_def)
  show "clean_text (Some s) = normalize_spec s"
    by (simp add: clean_text_Some normalize_spec_def)
qed

subsection \<open>Stabilisation polling\<close>

lemma poll_equip_exhausted:
  assumes "\<forall>j. i \<le> j \<and> j < i + k \<longrightarrow> \<not> fixed_point c j"
    and "prev = (if i = 0 then 0 else c (i - 1))"
  shows "poll_equip (\<lambda>i. Inr (c i)) i k prev
           = Inr (i + k, (if i + k = 0 then 0 else c (i + k - 1)), False)"
  using assms
proof (induction k arbitrary: i prev)
  case 0
  then show ?case by simp
next
  case (Suc k)
  have nfp: "\<not> fixed_point c i" using Suc.prems(1) by simp
  have stay: "\<not> (c i > 0 \<and> c i = prev)"
    using nfp Suc.prems(2) by (auto simp: fixed_point_def)
  have "poll_equip (\<lambda>i. Inr (c i)) (Suc i) k (c i)
          = Inr (Suc i + k, (if Suc i + k = 0 then 0 else c (Suc i + k - 1)), False)"
    by (rule Suc.IH) (use Suc.prems(1) in auto)
  then show ?case using stay by auto
qed

lemma poll_equip_halts:
  assumes "fixed_point c m" "i \<le> m" "m < i + k"
    and "\<forall>j. i \<le> j \<and> j < m \<longrightarrow> \<not> fixed_point c j"
    and "prev = (if i = 0 then 0 else c (i - 1))"
  shows "poll_equip (\<lambda>i. Inr (c i)) i k prev = Inr (Suc m, c m, True)"
  using assms
proof (induction k arbitrary: i prev)
  case 0
  then show ?case by simp
next
  case (Suc k)
  show ?case
  proof (cases "i = m")
    case True
    then have "c m > 0 \<and> c m = prev"
      using Suc.prems(1,5) by (auto simp: fixed_point_def)
    then show ?thesis using True by simp
  next
    case False
    then have nfp: "\<not> fixed_point c i" using Suc.prems(2,4) by simp
    have stay: "\<not> (c i > 0 \<and> c i = prev)"
      using nfp Suc.prems(5) by (auto simp: fixed_point_def)
    have "poll_equip (\<lambda>i. Inr (c i)) (Suc i) k (c i) = Inr (Suc m, c m, True)"
      by (rule Suc.IH) (use Suc.prems False in auto)
    then show ?thesis using stay by auto
  qed
qed

lemma poll_equip_attempts:
  "poll_equip cnt i k prev = Inr (n, x, b) \<Longrightarrow> n \<le> i + k"
  by (induction k arbitrary: i prev) (fastforce split: sum.splits if_splits)+

text \<open>
  Claim C1. The equipment-count poll makes at most 10 attempts. It stops at the first
  attempt whose count is nonzero and equal to the count of the attempt before it, and
  when there is no such attempt among the 10 it stops only after the tenth. For counts
  0, 2, 2 it stops at the third attempt with count 2; for strictly increasing counts it
  stops only at the bound.
\<close>

theorem stabilization_fixed_point:
  "(\<forall>n x b. wait_equip_stable (\<lambda>i. Inr (c i)) = Inr (n, x, b) \<longrightarrow> n \<le> 10)
   \<and> (k < 10 \<and> fixed_point c k \<and> (\<forall>j<k. \<not> fixed_point c j)
        \<longrightarrow> wait_equip_stable (\<lambda>i. Inr (c i)) = Inr (Suc k, c k, True))
   \<and> ((\<forall>j<10. \<not> fixed_point c j)
        \<longrightarrow> wait_equip_stable (\<lambda>i. Inr (c i)) = Inr (10, c 9, False))
   \<and> (c 0 = 0 \<and> c 1 = 2 \<and> c 2 = 2
        \<longrightarrow> wait_equip_stable (\<lambda>i. Inr (c i)) = Inr (3, 2, True))
   \<and> ((\<forall>i. c i < c (Suc i))
        \<longrightarrow> wait_equip_stable (\<lambda>i. Inr (c i)) = Inr (10, c 9, False))"
proof (intro conjI impI allI)
  fix n x b
  assume "wait_equip_stable (\<lambda>i. Inr (c i)) = Inr (n, x, b)"
  then show "n \<le> 10"
    using poll_equip_attempts [of "\<lambda>i. Inr (c i)" 0 10 0 n x b]
    by (simp add: wait_equip_stable_def)
next
  assume "k < 10 \<and> fixed_point c k \<and> (\<forall>j<k. \<not> fixed_point c j)"
  then show "wait_equip_stable (\<lambda>i. Inr (c i)) = Inr (Suc k, c k, True)"
    unfolding wait_equip_stable_def by (intro poll_equip_halts) auto
next
  assume "\<forall>j<10. \<not> fixed_point c j"
  then show "wait_equip_stable (\<lambda>i. Inr (c i)) = Inr (10, c 9, False)"
    using poll_equip_exhausted [of 0 10 c 0] by (simp add: wait_equip_stable_def)
next
  assume a: "c 0 = 0 \<and> c 1 = 2 \<and> c 2 = 2"
  have "poll_equip (\<lambda>i. Inr (c i)) 0 10 0 = Inr (Suc 2, c 2, True)"
  proof (rule poll_equip_halts)
    show "fixed_point c 2" using a by (simp add: fixed_point_def)
    show "\<forall>j. 0 \<le> j \<and> j < 2 \<longrightarrow> \<not> fixed_point c j"
      using a by (auto simp: fixed_point_def less_Suc_eq numeral_2_eq_2)
  qed simp_all
  then show "wait_equip_stable (\<lambda>i. Inr (c i)) = Inr (3, 2, True)"
    using a by (simp add: wait_equip_stable_def numeral_3_eq_3)
next
  assume inc: "\<forall>i. c i < c (Suc i)"
  have "\<not> fixed_point c j" for j
    using inc [rule_format, of "j - 1"] by (cases j) (auto simp: fixed_point_def)
  then show "wait_equip_stable (\<lambda>i. Inr (c i)) = Inr (10, c 9, False)"
    using poll_equip_exhausted [of 0 10 c 0] by (simp add: wait_equip_stable_def)
qed

theorem stabilization_fixed_point_witness:
  "wait_equip_stable (\<lambda>i. Inr (if i = 0 then 0 else 2)) = Inr (3, 2, True)
   \<and> wait_equip_stable (\<lambda>i. Inr (i + 1)) = Inr (10, 10, False)"
  using stabilization_fixed_point [of "\<lambda>i. if i = 0 then 0 else 2" 0]
    stabilization_fixed_point [of "\<lambda>i. i + 1" 0]
  by simp

subsection \<open>Link discovery\<close>

lemma split_query_no_qmark: "CHR ''?'' \<notin> set (split_query h)"
  by (auto simp: split_query_def dest: set_takeWhileD)

lemma split_query_id: "CHR ''?'' \<notin> set h \<Longrightarrow> split_query h = h"
  by (auto simp: split_query_def)

lemma split_query_absolute: "is_absolute h \<Longrightarrow> is_absolute (split_query h)"
  by (auto simp: is_absolute_def split_query_def prefix_def)

lemma add_link_cases:
  "add_link join a (links, n) = (links, n)
   \<or> (add_link join a (links, n) = (links @ [split_query (resolve join a)], Suc n)
       \<and> detail_pattern (resolve join a) \<and> split_query (resolve join a) \<notin> set links)"
  by (simp add: add_link_def Let_def)

lemma scan_anchors_inv:
  assumes "scan_anchors join ml as links n = (links', n')"
  shows "\<exists>ext. links' = links @ ext \<and> n' = n + length ext
           \<and> (distinct links \<longrightarrow> distinct links')
           \<and> (\<forall>l \<in> set ext. \<exists>a \<in> set as.
                 detail_pattern (resolve join a) \<and> l = split_query (resolve join a))"
  using assms
proof (induction as arbitrary: links n)
  case Nil
  then show ?case by simp
next
  case (Cons a as)
  from add_link_cases [of join a links n] show ?case
  proof
    assume same: "add_link join a (links, n) = (links, n)"
    show ?thesis
    proof (cases "length links \<ge> ml")
      case True
      with Cons.prems same show ?thesis by simp
    next
      case False
      with Cons.prems same have "scan_anchors join ml as links n = (links', n')" by simp
      from Cons.IH [OF this] show ?thesis by auto
    qed
  next
    assume app: "add_link join a (links, n) = (links @ [split_query (resolve join a)], Suc n)
       \<and> detail_pattern (resolve join a) \<and> split_query (resolve join a) \<notin> set links"
    let ?h = "split_query (resolve join a)"
    show ?thesis
    proof (cases "length (links @ [?h]) \<ge> ml")
      case True
      with Cons.prems app have "links' = links @ [?h]" "n' = Suc n" by auto
      with app show ?thesis by auto
    next
      case False
      with Cons.prems app have "scan_anchors join ml as (links @ [?h]) (Suc n) = (links', n')"
        by auto
      from Cons.IH [OF this] obtain ext where
        ext: "links' = (links @ [?h]) @ ext" "n' = Suc n + length ext"
          "distinct (links @ [?h]) \<longrightarrow> distinct links'"
          "\<forall>l \<in> set ext. \<exists>a \<in> set as.
                 detail_pattern (resolve join a) \<and> l = split_query (resolve join a)"
        by blast
      have "links' = links @ (?h # ext)" "n' = n + length (?h # ext)"
        using ext by simp_all
      moreover have "distinct links \<longrightarrow> distinct links'"
        using ext(3) app by simp
      moreover have "\<forall>l \<in> set (?h # ext). \<exists>a \<in> set (a # as).
                 detail_pattern (resolve join a) \<and> l = split_query (resolve join a)"
        using ext(4) app by auto
      ultimately show ?thesis by blast
    qed
  qed
qed

lemma pages_loop_inv:
  assumes "pages_loop w ml p k links log = Inr (links', log')"
  shows "\<exists>ext evs. links' = links @ ext \<and> log' = log @ evs
           \<and> (distinct links \<longrightarrow> distinct links')
           \<and> length evs \<le> k
           \<and> map page_of evs = [p..<p + length evs]
           \<and> length ext = sum_list (map new_found_of evs)
           \<and> (\<forall>e \<in> set (butlast evs). \<exists>q n. e = Scanned q (Suc n))
           \<and> (\<forall>l \<in> set ext. \<exists>q html a. p \<le> q \<and> q < p + k
                 \<and> requests_get w (page_url q) = Inr html
                 \<and> a \<in> set (page_anchors w html) \<and> link_of_target w a l)"
  using assms
proof (induction k arbitrary: p links log)
  case 0
  then show ?case by simp
next
  case (Suc k)
  show ?case
  proof (cases "requests_get w (page_url p)")
    case (Inl e)
    with Suc.prems have "e = Exception" "links' = links" "log' = log @ [Fetch_failed p]"
      by (cases e; simp)+
    then show ?thesis by simp
  next
    case (Inr html)
    obtain l1 nf where scan:
      "scan_anchors (urljoin w) ml (page_anchors w html) links 0 = (l1, nf)"
      by (cases "scan_anchors (urljoin w) ml (page_anchors w html) links 0") auto
    from scan_anchors_inv [OF scan] obtain e1 where e1:
      "l1 = links @ e1" "nf = length e1" "distinct links \<longrightarrow> distinct l1"
      "\<forall>l \<in> set e1. \<exists>a \<in> set (page_anchors w html). link_of_target w a l"
      by (auto simp: link_of_target_def)
    have origin1: "\<forall>l \<in> set e1. \<exists>q html a. p \<le> q \<and> q < p + Suc k
                 \<and> requests_get w (page_url q) = Inr html
                 \<and> a \<in> set (page_anchors w html) \<and> link_of_target w a l"
    proof
      fix l assume "l \<in> set e1"
      with e1(4) obtain a where "a \<in> set (page_anchors w html)" "link_of_target w a l"
        by blast
      with Inr show "\<exists>q html a. p \<le> q \<and> q < p + Suc k
                 \<and> requests_get w (page_url q) = Inr html
                 \<and> a \<in> set (page_anchors w html) \<and> link_of_target w a l"
        by (intro exI [of _ p] exI [of _ html] exI [of _ a]) simp
    qed
    show ?thesis
    proof (cases "nf = 0")
      case True
      with Suc.prems Inr scan have "links' = l1" "log' = log @ [Scanned p 0]"
        by simp_all
      with e1 True show ?thesis by simp
    next
      case False
      with Suc.prems Inr scan
      have rec: "pages_loop w ml (Suc p) k l1 (log @ [Scanned p nf]) = Inr (links', log')"
        by simp
      from Suc.IH [OF rec] obtain e2 evs where IH:
        "links' = l1 @ e2" "log' = (log @ [Scanned p nf]) @ evs"
        "distinct l1 \<longrightarrow> distinct links'" "length evs \<le> k"
        "map page_of evs = [Suc p..<Suc p + length evs]"
        "length e2 = sum_list (map new_found_of evs)"
        "\<forall>e \<in> set (butlast evs). \<exists>q n. e = Scanned q (Suc n)"
        "\<forall>l \<in> set e2. \<exists>q html a. Suc p \<le> q \<and> q < Suc p + k
                 \<and> requests_get w (page_url q) = Inr html
                 \<and> a \<in> set (page_anchors w html) \<and> link_of_target w a l"
        by blast
      let ?evs = "Scanned p nf # evs"
      have 1: "links' = links @ (e1 @ e2)" "log' = log @ ?evs"
        using IH(1,2) e1(1) by simp_all
      have 2: "distinct links \<longrightarrow> distinct links'"
        using IH(3) e1(3) by blast
      have 3: "length ?evs \<le> Suc k" using IH(4) by simp
      have "[p..<p + length ?evs] = p # [Suc p..<Suc p + length evs]"
        using upt_conv_Cons [of p "p + length ?evs"] by (simp del: upt_Suc)
      then have 4: "map page_of ?evs = [p..<p + length ?evs]"
        by (simp only: list.map page_of.simps IH(5))
      have 5: "length (e1 @ e2) = sum_list (map new_found_of ?evs)"
        using IH(6) e1(2) by simp
      have 6: "\<forall>e \<in> set (butlast ?evs). \<exists>q n. e = Scanned q (Suc n)"
        using IH(7) False by (auto simp: gr0_conv_Suc)
      have "\<forall>l \<in> set e2. \<exists>q html a. p \<le> q \<and> q < p + Suc k
                 \<and> requests_get w (page_url q) = Inr html
                 \<and> a \<in> set (page_anchors w html) \<and> link_of_target w a l"
      proof
        fix l assume "l \<in> set e2"
        with IH(8) obtain q html a where "Suc p \<le> q" "q < Suc p + k"
          "requests_get w (page_url q) = Inr html"
          "a \<in> set (page_anchors w html)" "link_of_target w a l"
          by blast
        then show "\<exists>q html a. p \<le> q \<and> q < p + Suc k
                 \<and> requests_get w (page_url q) = Inr html
                 \<and> a \<in> set (page_anchors w html) \<and> link_of_target w a l"
          by (intro exI [of _ q] exI [of _ html] exI [of _ a]) simp
      qed
      with origin1 have 7: "\<forall>l \<in> set (e1 @ e2). \<exists>q html a. p \<le> q \<and> q < p + Suc k
                 \<and> requests_get w (page_url q) = Inr html
                 \<and> a \<in> set (page_anchors w html) \<and> link_of_target w a l"
        by auto
      from 1 2 3 4 5 6 7 show ?thesis by blast
    qed
  qed
qed

lemma get_links_log_inv:
  assumes "get_links_log w mp ml = Inr (links, log)"
  shows "distinct links \<and> length log \<le> mp \<and> map page_of log = [1..<Suc (length log)]
           \<and> length links = sum_list (map new_found_of log)
           \<and> (\<forall>e \<in> set (butlast log). \<exists>q n. e = Scanned q (Suc n))
           \<and> (\<forall>l \<in> set links. \<exists>q html a. 1 \<le> q \<and> q \<le> mp
                 \<and> requests_get w (page_url q) = Inr html
                 \<and> a \<in> set (page_anchors w html) \<and> link_of_target w a l)"
proof -
  from assms have "pages_loop w ml 1 mp [] [] = Inr (links, log)"
    by (simp add: get_links_log_def)
  from pages_loop_inv [OF this] obtain ext evs where
    all: "links = [] @ ext \<and> log = [] @ evs
           \<and> (distinct ([]::string list) \<longrightarrow> distinct links)
           \<and> length evs \<le> mp
           \<and> map page_of evs = [1..<1 + length evs]
           \<and> length ext = sum_list (map new_found_of evs)
           \<and> (\<forall>e \<in> set (butlast evs). \<exists>q n. e = Scanned q (Suc n))
           \<and> (\<forall>l \<in> set ext. \<exists>q html a. 1 \<le> q \<and> q < 1 + mp
                 \<and> requests_get w (page_url q) = Inr html
                 \<and> a \<in> set (page_anchors w html) \<and> link_of_target w a l)"
    by (elim exE) (rule that)
  have a: "links = [] @ ext" and b: "log = [] @ evs" and c: "distinct ([]::string list) \<longrightarrow> distinct links"
    and d: "length evs \<le> mp"
    and e: "map page_of evs = [1..<1 + length evs]"
    and f: "length ext = sum_list (map new_found_of evs)"
    and g: "\<forall>e \<in> set (butlast evs). \<exists>q n. e = Scanned q (Suc n)"
    and h: "\<forall>l \<in> set ext. \<exists>q html a. 1 \<le> q \<and> q < 1 + mp
                 \<and> requests_get w (page_url q) = Inr html
                 \<and> a \<in> set (page_anchors w html) \<and> link_of_target w a l"
    using all by blast+
  have 1: "distinct links" using c by simp
  have 2: "length log \<le> mp" using b d by simp
  have 3: "map page_of log = [1..<Suc (length log)]" using b e by (simp del: upt_Suc)
  have 4: "length links = sum_list (map new_found_of log)" using a b f by simp
  have 5: "\<forall>e \<in> set (butlast log). \<exists>q n. e = Scanned q (Suc n)" using b g by simp
  have 6: "\<forall>l \<in> set links. \<exists>q html a. 1 \<le> q \<and> q \<le> mp
                 \<and> requests_get w (page_url q) = Inr html
                 \<and> a \<in> set (page_anchors w html) \<and> link_of_target w a l"
  proof
    fix l assume "l \<in> set links"
    with a h obtain q html a where "1 \<le> q" "q < 1 + mp"
      "requests_get w (page_url q) = Inr html"
      "a \<in> set (page_anchors w html)" "link_of_target w a l"
      by auto
    then show "\<exists>q html a. 1 \<le> q \<and> q \<le> mp
                 \<and> requests_get w (page_url q) = Inr html
                 \<and> a \<in> set (page_anchors w html) \<and> link_of_target w a l"
      by (intro exI [of _ q] exI [of _ html] exI [of _ a]) simp
  qed
  from 1 2 3 4 5 6 show ?thesis by (intro conjI)
qed

lemma get_links_Inr:
  "get_links w mp ml = Inr links \<longleftrightarrow> (\<exists>log. get_links_log w mp ml = Inr (links, log))"
  by (cases "get_links_log w mp ml") (auto simp: get_links_def)

lemma link_of_target_props:
  assumes "link_of_target w a l"
  shows "CHR ''?'' \<notin> set l"
    and "is_absolute (resolve (urljoin w) a) \<longrightarrow> is_absolute l"
    and "CHR ''?'' \<notin> set (resolve (urljoin w) a) \<longrightarrow> detail_pattern l"
  using assms
  by (auto simp: link_of_target_def split_query_no_qmark split_query_absolute split_query_id)

lemma anchor_hrefs_anchors_doc [simp]: "anchor_hrefs (anchors_doc hrefs) = hrefs"
proof -
  have "List.map_filter (\<lambda>a. get_attr a ''href'')
          (filter (\<lambda>n. is_tag ''a'' n \<and> get_attr n ''href'' \<noteq> None)
            (concat (map (\<lambda>k. k # descendants k) (map (\<lambda>h. Elem ''a'' [(''href'', h)] []) hs)))) = hs" for hs
    by (induction hs) (simp_all add: is_tag_def get_attr_def)
  then show ?thesis
    by (simp add: anchor_hrefs_def anchors_doc_def find_all_def)
qed

lemmas pattern_eval = detail_pattern_def ends_detail_def isdigit_def suffix_to_prefix

lemma example_add_link:
  assumes "\<forall>a \<in> set example_anchors. join BASE_URL a = BASE_URL @ a"
  shows "add_link join ''/fr/maroc/a_12345.htm?x=1'' st = st"
    and "add_link join ''/fr/maroc/other'' st = st"
    and "add_link join ''/fr/maroc/a_12345.htm'' ([], n)
           = ([''https://www.avito.ma/fr/maroc/a_12345.htm''], Suc n)"
    and "add_link join ''/fr/maroc/a_12345.htm'' ([''https://www.avito.ma/fr/maroc/a_12345.htm''], n)
           = ([''https://www.avito.ma/fr/maroc/a_12345.htm''], n)"
proof -
  have r1: "resolve join ''/fr/maroc/a_12345.htm?x=1'' = ''https://www.avito.ma/fr/maroc/a_12345.htm?x=1''"
    and r2: "resolve join ''/fr/maroc/other'' = ''https://www.avito.ma/fr/maroc/other''"
    and r3: "resolve join ''/fr/maroc/a_12345.htm'' = ''https://www.avito.ma/fr/maroc/a_12345.htm''"
    using assms by (simp_all add: example_anchors_def resolve_def startswith_slash_def BASE_URL_def)
  have p1: "\<not> detail_pattern ''https://www.avito.ma/fr/maroc/a_12345.htm?x=1''"
    and p2: "\<not> detail_pattern ''https://www.avito.ma/fr/maroc/other''"
    and p3: "detail_pattern ''https://www.avito.ma/fr/maroc/a_12345.htm''"
    by (simp_all add: pattern_eval)
  have q3: "split_query ''https://www.avito.ma/fr/maroc/a_12345.htm''
              = ''https://www.avito.ma/fr/maroc/a_12345.htm''"
    by (simp add: split_query_def)
  show "add_link join ''/fr/maroc/a_12345.htm?x=1'' st = st"
    by (cases st) (simp add: add_link_def r1 p1)
  show "add_link join ''/fr/maroc/other'' st = st"
    by (cases st) (simp add: add_link_def r2 p2)
  show "add_link join ''/fr/maroc/a_12345.htm'' ([], n)
           = ([''https://www.avito.ma/fr/maroc/a_12345.htm''], Suc n)"
    by (simp add: add_link_def r3 p3 q3)
  show "add_link join ''/fr/maroc/a_12345.htm'' ([''https://www.avito.ma/fr/maroc/a_12345.htm''], n)
           = ([''https://www.avito.ma/fr/maroc/a_12345.htm''], n)"
    by (simp add: add_link_def r3 p3 q3)
qed

lemma example_scan_first:
  assumes "0 < ml" "\<forall>a \<in> set example_anchors. join BASE_URL a = BASE_URL @ a"
  shows "scan_anchors join ml example_anchors [] 0
           = ([''https://www.avito.ma/fr/maroc/a_12345.htm''], 1)"
  using assms(1) by (simp add: example_anchors_def example_add_link [of join, OF assms(2)])

lemma example_scan_again:
  assumes "0 < ml" "\<forall>a \<in> set example_anchors. join BASE_URL a = BASE_URL @ a"
  shows "scan_anchors join ml example_anchors [''https://www.avito.ma/fr/maroc/a_12345.htm''] 0
           = ([''https://www.avito.ma/fr/maroc/a_12345.htm''], 0)"
  using assms(1) by (simp add: example_anchors_def example_add_link [of join, OF assms(2)])

lemma example_links:
  assumes "0 < mp" "0 < ml"
    and "\<forall>url. \<exists>html. requests_get w url = Inr html \<and> page_anchors w html = example_anchors"
    and "\<forall>a \<in> set example_anchors. urljoin w BASE_URL a = BASE_URL @ a"
  shows "get_links_log w mp ml
           = Inr ([''https://www.avito.ma/fr/maroc/a_12345.htm''],
                  if mp = 1 then [Scanned 1 1] else [Scanned 1 1, Scanned 2 0])"
proof -
  obtain k where mp: "mp = Suc k" using assms(1) by (cases mp) auto
  obtain h1 where h1: "requests_get w (page_url 1) = Inr h1" "page_anchors w h1 = example_anchors"
    using assms(3) by blast
  obtain h2 where h2: "requests_get w (page_url (Suc 1)) = Inr h2" "page_anchors w h2 = example_anchors"
    using assms(3) by blast
  show ?thesis
  proof (cases k)
    case 0
    then show ?thesis
      using h1 example_scan_first [of ml "urljoin w", OF assms(2,4)] by (simp add: get_links_log_def mp)
  next
    case (Suc j)
    then show ?thesis
      using h1 h2 example_scan_first [of ml "urljoin w", OF assms(2,4)] example_scan_again [of ml "urljoin w", OF assms(2,4)]
      by (simp add: get_links_log_def mp)
  qed
qed

lemma same_page_world_simps [simp]:
  "requests_get (same_page_world hs) url = Inr ''<html>''"
  "page_anchors (same_page_world hs) html = hs"
  "urljoin (same_page_world hs) base url = base @ url"
  by (simp_all add: same_page_world_def quiet_world_def page_anchors_def)

text \<open>
  Claim C3, as amended. Every element of the list that \<open>get_links\<close> returns occurs
  exactly once and contains no question mark. It is what stands before the first
  question mark of an anchor target of a fetched page that matched the detail-page
  pattern, where a target that starts with a slash is first resolved against the site
  base and any other target is taken as written. So the element is absolute whenever
  that resolved target is, and matches the pattern itself whenever that resolved target
  has no query string. A page with the anchors \<open>/fr/maroc/a_12345.htm?x=1\<close>,
  \<open>/fr/maroc/a_12345.htm\<close> and \<open>/fr/maroc/other\<close> yields exactly the one link
  \<open>https://www.avito.ma/fr/maroc/a_12345.htm\<close>.
\<close>

theorem discovered_links_invariant:
  "(get_links w max_pages max_links = Inr links \<longrightarrow>
      distinct links \<and>
      (\<forall>l \<in> set links.
         CHR ''?'' \<notin> set l \<and>
         (\<exists>q html a. 1 \<le> q \<and> q \<le> max_pages
            \<and> requests_get w (page_url q) = Inr html
            \<and> a \<in> set (page_anchors w html)
            \<and> link_of_target w a l
            \<and> (is_absolute (resolve (urljoin w) a) \<longrightarrow> is_absolute l)
            \<and> (CHR ''?'' \<notin> set (resolve (urljoin w) a) \<longrightarrow> detail_pattern l))))
   \<and> (0 < max_pages \<and> 0 < max_links
        \<and> (\<forall>url. \<exists>html. requests_get w url = Inr html \<and> page_anchors w html = example_anchors)
        \<and> (\<forall>a \<in> set example_anchors. urljoin w BASE_URL a = BASE_URL @ a)
        \<longrightarrow> get_links w max_pages max_links = Inr [''https://www.avito.ma/fr/maroc/a_12345.htm''])"
proof (intro conjI impI ballI)
  assume run: "get_links w max_pages max_links = Inr links"
  then obtain log where "get_links_log w max_pages max_links = Inr (links, log)"
    by (auto simp: get_links_Inr)
  from get_links_log_inv [OF this] show "distinct links" by blast
next
  fix l
  assume run: "get_links w max_pages max_links = Inr links" and l: "l \<in> set links"
  then obtain log where "get_links_log w max_pages max_links = Inr (links, log)"
    by (auto simp: get_links_Inr)
  from get_links_log_inv [OF this] l obtain q html a where *:
    "1 \<le> q" "q \<le> max_pages" "requests_get w (page_url q) = Inr html"
    "a \<in> set (page_anchors w html)" "link_of_target w a l"
    by blast
  from link_of_target_props [OF *(5)] show "CHR ''?'' \<notin> set l" by blast
  from * link_of_target_props [OF *(5)]
  show "\<exists>q html a. 1 \<le> q \<and> q \<le> max_pages
            \<and> requests_get w (page_url q) = Inr html
            \<and> a \<in> set (page_anchors w html)
            \<and> link_of_target w a l
            \<and> (is_absolute (resolve (urljoin w) a) \<longrightarrow> is_absolute l)
            \<and> (CHR ''?'' \<notin> set (resolve (urljoin w) a) \<longrightarrow> detail_pattern l)"
    by (intro exI [of _ q] exI [of _ html] exI [of _ a]) blast
next
  assume "0 < max_pages \<and> 0 < max_links
        \<and> (\<forall>url. \<exists>html. requests_get w url = Inr html \<and> page_anchors w html = example_anchors)
        \<and> (\<forall>a \<in> set example_anchors. urljoin w BASE_URL a = BASE_URL @ a)"
  then have "get_links_log w max_pages max_links
           = Inr ([''https://www.avito.ma/fr/maroc/a_12345.htm''],
                  if max_pages = 1 then [Scanned 1 1] else [Scanned 1 1, Scanned 2 0])"
    by (intro example_links) blast+
  then show "get_links w max_pages max_links = Inr [''https://www.avito.ma/fr/maroc/a_12345.htm'']"
    by (simp add: get_links_def)
qed

theorem discovered_links_invariant_witness:
  "get_links (same_page_world example_anchors) MAX_PAGES MAX_LINKS
     = Inr [''https://www.avito.ma/fr/maroc/a_12345.htm'']
   \<and> distinct [''https://www.avito.ma/fr/maroc/a_12345.htm'']
   \<and> CHR ''?'' \<notin> set ''https://www.avito.ma/fr/maroc/a_12345.htm''"
  using discovered_links_invariant [of "same_page_world example_anchors" MAX_PAGES MAX_LINKS
      "[''https://www.avito.ma/fr/maroc/a_12345.htm'']"]
  by (simp add: MAX_PAGES_def MAX_LINKS_def)

lemma same_page_two_rounds:
  assumes "scan_anchors (\<lambda>base url. base @ url) max_links hs [] 0 = (l1, Suc n)"
    and "scan_anchors (\<lambda>base url. base @ url) max_links hs l1 0 = (l2, 0)"
  shows "get_links_log (same_page_world hs) (Suc (Suc k)) max_links
           = Inr (l2, [Scanned 1 (Suc n), Scanned 2 0])"
proof -
  have j: "urljoin (same_page_world hs) = (\<lambda>base url. base @ url)"
    by (simp add: fun_eq_iff)
  show ?thesis
    using assms by (simp add: get_links_log_def j)
qed

text \<open>
  Counterexample to claim C3 as stated: a relative target without a leading slash is
  returned unresolved, and a target whose query string ends like a detail page is
  returned without the part that matched.
\<close>

theorem discovered_links_counterexample:
  "get_links (same_page_world [''a_12345.htm'', ''https://www.avito.ma/x?y=_1.htm'']) MAX_PAGES MAX_LINKS
     = Inr [''a_12345.htm'', ''https://www.avito.ma/x'']
   \<and> \<not> is_absolute ''a_12345.htm''
   \<and> \<not> detail_pattern ''https://www.avito.ma/x''"
proof -
  let ?hs = "[''a_12345.htm'', ''https://www.avito.ma/x?y=_1.htm'']"
  let ?j = "\<lambda>base url. base @ url"
  have r: "resolve ?j ''a_12345.htm'' = ''a_12345.htm''"
    "resolve ?j ''https://www.avito.ma/x?y=_1.htm'' = ''https://www.avito.ma/x?y=_1.htm''"
    by (simp_all add: resolve_def startswith_slash_def)
  have p: "detail_pattern ''a_12345.htm''" "detail_pattern ''https://www.avito.ma/x?y=_1.htm''"
    "\<not> detail_pattern ''https://www.avito.ma/x''"
    by (simp_all add: pattern_eval)
  have q: "split_query ''a_12345.htm'' = ''a_12345.htm''"
    "split_query ''https://www.avito.ma/x?y=_1.htm'' = ''https://www.avito.ma/x''"
    by (simp_all add: split_query_def)
  have 1: "scan_anchors ?j MAX_LINKS ?hs [] 0 = ([''a_12345.htm'', ''https://www.avito.ma/x''], Suc 1)"
    by (simp add: add_link_def r p q MAX_LINKS_def)
  have 2: "scan_anchors ?j MAX_LINKS ?hs [''a_12345.htm'', ''https://www.avito.ma/x''] 0
             = ([''a_12345.htm'', ''https://www.avito.ma/x''], 0)"
    by (simp add: add_link_def r p q MAX_LINKS_def)
  have "MAX_PAGES = Suc (Suc 8)" by (simp add: MAX_PAGES_def)
  with same_page_two_rounds [OF 1 2, of 8]
  have "get_links (same_page_world ?hs) MAX_PAGES MAX_LINKS
          = Inr [''a_12345.htm'', ''https://www.avito.ma/x'']"
    by (simp add: get_links_def)
  moreover have "\<not> is_absolute ''a_12345.htm''"
    by (simp add: is_absolute_def)
  ultimately show ?thesis using p(3) by simp
qed

text \<open>
  Claim C9. In every run the log of listing pages lists the pages 1, 2, ... that were
  requested, at most \<open>max_pages\<close> of them, and the counts of new links add up to the
  number of links returned. A scanned page that contributed no new link is the last
  entry of the log: no page is requested after it. When the first page contributes
  links and the second contributes none, exactly these two pages are requested, however
  large \<open>max_pages\<close> is.
\<close>

theorem zero_growth_stops_discovery:
  "(get_links_log w max_pages max_links = Inr (links, log) \<longrightarrow>
      (\<forall>pre page post. log = pre @ Scanned page 0 # post \<longrightarrow> post = [])
      \<and> map page_of log = [1..<Suc (length log)]
      \<and> length log \<le> max_pages
      \<and> length links = sum_list (map new_found_of log))
   \<and> (2 \<le> max_pages
        \<and> requests_get w (page_url 1) = Inr html1
        \<and> requests_get w (page_url 2) = Inr html2
        \<and> scan_anchors (urljoin w) max_links (page_anchors w html1) [] 0 = (links1, Suc n)
        \<and> scan_anchors (urljoin w) max_links (page_anchors w html2) links1 0 = (links2, 0)
        \<longrightarrow> get_links_log w max_pages max_links = Inr (links2, [Scanned 1 (Suc n), Scanned 2 0]))"
proof (intro conjI impI allI)
  fix pre page post
  assume run: "get_links_log w max_pages max_links = Inr (links, log)"
    and log: "log = pre @ Scanned page 0 # post"
  show "post = []"
  proof (rule ccontr)
    assume "post \<noteq> []"
    then have "Scanned page 0 \<in> set (butlast log)"
      by (simp add: log butlast_append)
    with get_links_log_inv [OF run] show False by auto
  qed
next
  assume run: "get_links_log w max_pages max_links = Inr (links, log)"
  from get_links_log_inv [OF run]
  show "map page_of log = [1..<Suc (length log)]" "length log \<le> max_pages"
    "length links = sum_list (map new_found_of log)"
    by blast+
next
  assume a: "2 \<le> max_pages
        \<and> requests_get w (page_url 1) = Inr html1
        \<and> requests_get w (page_url 2) = Inr html2
        \<and> scan_anchors (urljoin w) max_links (page_anchors w html1) [] 0 = (links1, Suc n)
        \<and> scan_anchors (urljoin w) max_links (page_anchors w html2) links1 0 = (links2, 0)"
  then obtain k where k: "max_pages = Suc (Suc k)"
    by (metis Suc_le_D numeral_2_eq_2 Suc_le_mono)
  show "get_links_log w max_pages max_links = Inr (links2, [Scanned 1 (Suc n), Scanned 2 0])"
    using a by (simp add: get_links_log_def k del: One_nat_def)
qed

theorem zero_growth_stops_discovery_witness:
  "get_links_log (same_page_world [''/fr/maroc/a_12345.htm'']) MAX_PAGES MAX_LINKS
     = Inr ([''https://www.avito.ma/fr/maroc/a_12345.htm''], [Scanned 1 1, Scanned 2 0])"
proof -
  let ?w = "same_page_world [''/fr/maroc/a_12345.htm'']"
  let ?l = "''https://www.avito.ma/fr/maroc/a_12345.htm''"
  have r: "resolve (urljoin ?w) ''/fr/maroc/a_12345.htm'' = ?l"
    by (simp add: resolve_def startswith_slash_def BASE_URL_def)
  have p: "detail_pattern ?l" by (simp add: pattern_eval)
  have q: "split_query ?l = ?l" by (simp add: split_query_def)
  have 1: "scan_anchors (urljoin ?w) MAX_LINKS (page_anchors ?w ''<html>'') [] 0 = ([?l], Suc 0)"
    by (simp add: add_link_def r p q MAX_LINKS_def)
  have 2: "scan_anchors (urljoin ?w) MAX_LINKS (page_anchors ?w ''<html>'') [?l] 0 = ([?l], 0)"
    by (simp add: add_link_def r p q MAX_LINKS_def)
  have 3: "2 \<le> MAX_PAGES" by (simp add: MAX_PAGES_def)
  show ?thesis
    using zero_growth_stops_discovery [of ?w MAX_PAGES MAX_LINKS "[?l]" "[Scanned 1 1, Scanned 2 0]"
        "''<html>''" "''<html>''" "[?l]" 0 "[?l]"] 1 2 3
    by simp
qed

lemma add_link_plain:
  assumes "\<not> startswith_slash a" "detail_pattern a" "CHR ''?'' \<notin> set a"
  shows "add_link join a (links, n) = (if a \<in> set links then (links, n) else (links @ [a], Suc n))"
  using assms by (simp add: add_link_def resolve_def split_query_id)

lemma scan_anchors_all_new:
  assumes "distinct as" "set as \<inter> set links = {}"
    and "\<forall>a \<in> set as. \<not> startswith_slash a \<and> detail_pattern a \<and> CHR ''?'' \<notin> set a"
    and "length links + length as \<le> ml"
  shows "scan_anchors join ml as links n = (links @ as, n + length as)"
  using assms
proof (induction as arbitrary: links n)
  case Nil
  then show ?case by simp
next
  case (Cons a as)
  have step: "add_link join a (links, n) = (links @ [a], Suc n)"
    using Cons.prems by (simp add: add_link_plain)
  show ?case
  proof (cases "length (links @ [a]) \<ge> ml")
    case True
    with Cons.prems(4) have "as = []" by (cases as) auto
    with step True show ?thesis by simp
  next
    case False
    have "scan_anchors join ml as (links @ [a]) (Suc n) = ((links @ [a]) @ as, Suc n + length as)"
      by (rule Cons.IH) (use Cons.prems in auto)
    with step False show ?thesis by simp
  qed
qed

lemma cap_link_props:
  "\<not> startswith_slash (cap_link i)" "detail_pattern (cap_link i)" "CHR ''?'' \<notin> set (cap_link i)"
proof -
  show "\<not> startswith_slash (cap_link i)"
    by (simp add: cap_link_def startswith_slash_def)
  show "CHR ''?'' \<notin> set (cap_link i)"
    by (simp add: cap_link_def)
  have d: "isdigit CHR ''1''" "\<not> isdigit CHR ''_''" by (simp_all add: isdigit_def)
  have t: "takeWhile isdigit (replicate k CHR ''1'' @ CHR ''_'' # xs) = replicate k CHR ''1''" for k xs
    using d by (induction k) simp_all
  have e: "dropWhile isdigit (replicate k CHR ''1'' @ CHR ''_'' # xs) = CHR ''_'' # xs" for k xs
    using d by (induction k) simp_all
  have r: "rev (cap_link i) = ''mth.'' @ replicate (Suc i) CHR ''1'' @ CHR ''_'' # rev ''https://www.avito.ma/fr/maroc/a''"
    by (simp add: cap_link_def del: replicate_Suc)
  have s: "suffix ''.htm'' (cap_link i)"
    unfolding cap_link_def suffix_def
    by (rule exI [of _ "''https://www.avito.ma/fr/maroc/a_'' @ replicate (Suc i) CHR ''1''"]) simp
  have "ends_detail (cap_link i)"
    unfolding ends_detail_def r
    by (simp add: s t e Let_def del: replicate_Suc rev.simps)
  then show "detail_pattern (cap_link i)"
    by (simp add: detail_pattern_def)
qed

lemma cap_link_inj: "inj cap_link"
proof (rule injI)
  fix i j assume "cap_link i = cap_link j"
  then have "length (cap_link i) = length (cap_link j)" by simp
  then show "i = j" by (simp add: cap_link_def)
qed

lemma cap_links_distinct: "distinct (map cap_link [i..<j])"
  by (auto simp: distinct_map inj_on_def dest: injD [OF cap_link_inj])

lemma cap_world_pages:
  "requests_get cap_world (page_url 1) = Inr ''first''"
  "requests_get cap_world (page_url 2) = Inr ''later''"
  "requests_get cap_world (page_url 3) = Inr ''later''"
  "page_anchors cap_world ''first'' = map cap_link [0..<300]"
  "page_anchors cap_world ''later'' = [cap_link 300]"
proof -
  have u: "page_url 2 \<noteq> page_url 1" "page_url 3 \<noteq> page_url 1"
    by (simp_all add: page_url_def str_nat.simps digit_char_def)
  show "requests_get cap_world (page_url 1) = Inr ''first''"
    by (simp add: cap_world_def)
  show "requests_get cap_world (page_url 2) = Inr ''later''"
    "requests_get cap_world (page_url 3) = Inr ''later''"
    using u by (simp_all add: cap_world_def)
  show "page_anchors cap_world ''first'' = map cap_link [0..<300]"
    "page_anchors cap_world ''later'' = [cap_link 300]"
    by (simp_all add: cap_world_def page_anchors_def)
qed

text \<open>
  Claim C4 fails on the code. With the shipped constants (10 pages, cap 300), a first
  listing page with 300 distinct detail links followed by pages that start with one
  more makes \<open>get_links\<close> return 301 links: the test against the cap leaves the scan
  of one page only, after the link has been appended, and the next page is still
  fetched and scanned.
\<close>

theorem link_cap_exceeded:
  "get_links cap_world MAX_PAGES MAX_LINKS = Inr (map cap_link [0..<301])
   \<and> length (map cap_link [0..<301]) = 301
   \<and> MAX_LINKS < length (map cap_link [0..<301])"
proof -
  let ?j = "urljoin cap_world"
  let ?L = "map cap_link [0..<300]"
  have new: "cap_link 300 \<notin> set ?L"
  proof
    assume "cap_link 300 \<in> set ?L"
    then obtain x where "x < 300" "cap_link 300 = cap_link x" by auto
    with injD [OF cap_link_inj, of 300 x] show False by simp
  qed
  have 1: "scan_anchors ?j 300 ?L [] 0 = ([] @ ?L, 0 + length ?L)"
    by (rule scan_anchors_all_new) (simp_all add: cap_links_distinct cap_link_props)
  have 2: "scan_anchors ?j 300 [cap_link 300] ?L 0 = (?L @ [cap_link 300], Suc 0)"
    using new by (simp add: add_link_plain cap_link_props)
  have 3: "scan_anchors ?j 300 [cap_link 300] (?L @ [cap_link 300]) 0 = (?L @ [cap_link 300], 0)"
    by (simp add: add_link_plain cap_link_props)
  have pages: "MAX_PAGES = Suc (Suc (Suc 7))" by (simp add: MAX_PAGES_def)
  have n: "Suc 2 = 3" by simp
  have s3: "pages_loop cap_world 300 3 (Suc k) (?L @ [cap_link 300]) lg
              = Inr (?L @ [cap_link 300], lg @ [Scanned 3 0])" for k lg
    by (simp add: cap_world_pages 3 del: scan_anchors.simps upt_Suc)
  have s2: "pages_loop cap_world 300 2 (Suc (Suc k)) ?L lg
              = Inr (?L @ [cap_link 300], lg @ [Scanned 2 (Suc 0), Scanned 3 0])" for k lg
    by (simp add: cap_world_pages 2 3 n del: scan_anchors.simps upt_Suc)
  have s1: "pages_loop cap_world 300 1 (Suc (Suc (Suc k))) [] []
              = Inr (?L @ [cap_link 300], [Scanned 1 300, Scanned 2 (Suc 0), Scanned 3 0])" for k
    using 1 by (simp add: cap_world_pages 2 3 n del: scan_anchors.simps upt_Suc One_nat_def)
  have "get_links_log cap_world MAX_PAGES MAX_LINKS
          = Inr (?L @ [cap_link 300], [Scanned 1 300, Scanned 2 (Suc 0), Scanned 3 0])"
    unfolding get_links_log_def pages MAX_LINKS_def by (rule s1)
  then have run: "get_links cap_world MAX_PAGES MAX_LINKS = Inr (?L @ [cap_link 300])"
    by (rule get_links_Inr [THEN iffD2, OF exI])
  have "[0..<301] = [0..<300] @ [300::nat]"
    using upt_Suc_append [of 0 300] by simp
  then have "?L @ [cap_link 300] = map cap_link [0..<301]"
    by (simp del: upt_Suc)
  with run have "get_links cap_world MAX_PAGES MAX_LINKS = Inr (map cap_link [0..<301])"
    by (simp only:)
  then show ?thesis by (simp add: MAX_LINKS_def)
qed

subsection \<open>Publication time\<close>

lemmas date_eval = ymd2ord_def days_before_year_def days_before_month_def days_in_month_def
  is_leap_def upt_conv_Cons

lemmas clean_eval = clean_text_def strip_def lstrip_def rstrip_def replace_char_def isspace_def

lemma relative_time_spec: "relative_time now text = resolve_relative_spec now text"
  by (simp add: relative_time_def resolve_relative_spec_def unit_spans_def moment_before_def Let_def)

lemma ordinal_examples:
  "ymd2ord 2024 2 1 = 738917"
  "ord2ymd 738914 = (2024, 1, 29)"
  "ord2ymd 738916 = (2024, 1, 31)"
  "ord2ymd 738552 = (2023, 2, 1)"
  "ord2ymd 191417 = (525, 1, 30)"
  by (simp_all add: ord2ymd_def Let_def date_eval)

lemma feb_first_minus:
  "datetime_sub \<lparr>year = 2024, month = 2, day = 1, hour = 0, minute = 0, second = 0,
                  microsecond = us\<rparr> 259200
     = Some \<lparr>year = 2024, month = 1, day = 29, hour = 0, minute = 0, second = 0,
             microsecond = us\<rparr>"
  "datetime_sub \<lparr>year = 2024, month = 2, day = 1, hour = 0, minute = 0, second = 0,
                  microsecond = us\<rparr> 120
     = Some \<lparr>year = 2024, month = 1, day = 31, hour = 23, minute = 58, second = 0,
             microsecond = us\<rparr>"
  "datetime_sub \<lparr>year = 2024, month = 2, day = 1, hour = 0, minute = 0, second = 0,
                  microsecond = us\<rparr> 31536000
     = Some \<lparr>year = 2023, month = 2, day = 1, hour = 0, minute = 0, second = 0,
             microsecond = us\<rparr>"
  "datetime_sub \<lparr>year = 2024, month = 2, day = 1, hour = 0, minute = 0, second = 0,
                  microsecond = us\<rparr> 47304000000
     = Some \<lparr>year = 525, month = 1, day = 30, hour = 0, minute = 0, second = 0,
             microsecond = us\<rparr>"
  "datetime_sub \<lparr>year = 2024, month = 2, day = 1, hour = 0, minute = 0, second = 0,
                  microsecond = us\<rparr> 94608000000 = None"
  by (simp_all add: datetime_sub_def ordinal_examples Let_def MAXORDINAL_def del: One_nat_def)

lemma strftime_examples:
  "strftime \<lparr>year = 2024, month = 1, day = 29, hour = 0, minute = 0, second = 0,
             microsecond = us\<rparr> = ''2024-01-29 00:00:00''"
  "strftime \<lparr>year = 2024, month = 1, day = 31, hour = 23, minute = 58, second = 0,
             microsecond = us\<rparr> = ''2024-01-31 23:58:00''"
  "strftime \<lparr>year = 2023, month = 2, day = 1, hour = 0, minute = 0, second = 0,
             microsecond = us\<rparr> = ''2023-02-01 00:00:00''"
  "strftime \<lparr>year = 525, month = 1, day = 30, hour = 0, minute = 0, second = 0,
             microsecond = us\<rparr> = ''525-01-30 00:00:00''"
  by (simp_all add: strftime_def zero_pad_def str_nat.simps digit_char_def)

lemma timedelta_examples:
  "timedelta 3 0 0 = Some 259200"
  "timedelta 0 0 2 = Some 120"
  "timedelta 365 0 0 = Some 31536000"
  "timedelta 547500 0 0 = Some 47304000000"
  "timedelta 1095000 0 0 = Some 94608000000"
  by (simp_all add: timedelta_def)

lemma number_examples:
  "first_digits ''il y a 3 jours'' = Some ''3''"
  "first_digits ''il y a 2 heures 5 minutes'' = Some ''2''"
  "first_digits ''il y a un an'' = None"
  "first_digits ''il y a 1500 ans'' = Some ''1500''"
  "first_digits ''il y a 3000 ans'' = Some ''3000''"
  "first_digits ''hier'' = None"
  "int_of_digits ''3'' = 3" "int_of_digits ''2'' = 2"
  "int_of_digits ''1500'' = 1500" "int_of_digits ''3000'' = 3000"
  by (simp_all add: first_digits_def isdigit_def int_of_digits_def)

lemma relative_time_examples:
  "relative_time \<lparr>year = 2024, month = 2, day = 1, hour = 0, minute = 0, second = 0,
                   microsecond = us\<rparr> ''il y a 3 jours'' = ''2024-01-29 00:00:00''"
  "relative_time \<lparr>year = 2024, month = 2, day = 1, hour = 0, minute = 0, second = 0,
                   microsecond = us\<rparr> ''il y a 2 heures 5 minutes'' = ''2024-01-31 23:58:00''"
  "relative_time \<lparr>year = 2024, month = 2, day = 1, hour = 0, minute = 0, second = 0,
                   microsecond = us\<rparr> ''il y a un an'' = ''2023-02-01 00:00:00''"
  "relative_time \<lparr>year = 2024, month = 2, day = 1, hour = 0, minute = 0, second = 0,
                   microsecond = us\<rparr> ''il y a 1500 ans'' = ''525-01-30 00:00:00''"
  "relative_time \<lparr>year = 2024, month = 2, day = 1, hour = 0, minute = 0, second = 0,
                   microsecond = us\<rparr> ''il y a 3000 ans'' = ''il y a 3000 ans''"
  "relative_time now ''hier'' = ''hier''"
  by (simp_all add: relative_time_def number_examples timedelta_examples feb_first_minus
      strftime_examples del: One_nat_def)

lemma lower_examples:
  "lower (clean_text (Some ''il y a 3 jours'')) = ''il y a 3 jours''"
  "lower (clean_text (Some ''Il y a 3 JOURS'')) = ''il y a 3 jours''"
  "lower (clean_text (Some ''il y a 2 heures 5 minutes'')) = ''il y a 2 heures 5 minutes''"
  "lower (clean_text (Some ''Il y a un an'')) = ''il y a un an''"
  "lower (clean_text (Some ''il y a 1500 ans'')) = ''il y a 1500 ans''"
  "lower (clean_text (Some ''il y a 3000 ans'')) = ''il y a 3000 ans''"
  "lower (clean_text (Some ''hier'')) = ''hier''"
  "lower (clean_text (Some '' HIER '')) = ''hier''"
  by (simp_all add: clean_eval lower_def lower_char_def char_of_def bit_iff_odd)

lemma time_document:
  "find_first (is_tag ''time'') (Elem ''[document]'' [] [Elem ''time'' [] [Text x]])
     = Some (Elem ''time'' [] [Text x])"
  "iso_attribute quiet_world (Elem ''time'' [] [Text x]) = None"
  "get_text (Elem ''time'' [] [Text x]) = x"
  by (simp_all add: find_first_def is_tag_def iso_attribute_def get_attr_def get_text_def
      text_of_def)

text \<open>
  Counterexample to claim C8 as stated: the unit \<open>an\<close> occurs in the text, yet the text
  is returned as it is, because the day that lies 3000 times 365 days before
  2024-02-01 is before the first day a \<open>datetime\<close> can hold.
\<close>

theorem relative_time_overflow_counterexample:
  "contains ''an'' ''il y a 3000 ans''
   \<and> parse_publication_date quiet_world
        \<lparr>year = 2024, month = 2, day = 1, hour = 0, minute = 0, second = 0, microsecond = 0\<rparr>
        (Elem ''[document]'' [] [Elem ''time'' [] [Text ''il y a 3000 ans'']])
       = ''il y a 3000 ans''"
  by (simp add: parse_publication_date_def time_document lower_examples relative_time_examples
      del: One_nat_def)

text \<open>
  Claim C8, as amended. On the text path (a \<open>time\<close> element whose \<open>datetime\<close>
  attribute is missing, empty or unparsable) the resolver takes the first integer \<open>N\<close>
  of the normalised, lower-cased text, 1 when there is none, and tests for \<open>minute\<close>,
  \<open>heure\<close>, \<open>jour\<close>, \<open>mois\<close> and \<open>an\<close> in this order: the first that occurs decides
  the span of \<open>N\<close> minutes, \<open>N\<close> hours, \<open>N\<close> days, \<open>30 N\<close> days or \<open>365 N\<close> days. The
  result is the moment that lies the span before now, formatted, when the span and that
  moment can be represented; otherwise, and when no unit occurs, it is the text as it
  is. At 2024-02-01 00:00:00 the text \<open>il y a 3 jours\<close>, in any case of the letters,
  gives \<open>2024-01-29 00:00:00\<close>, \<open>il y a 2 heures 5 minutes\<close> gives two minutes
  earlier, \<open>Il y a un an\<close> gives \<open>2023-02-01 00:00:00\<close>, \<open>il y a 1500 ans\<close> gives
  \<open>525-01-30 00:00:00\<close> and \<open>il y a 3000 ans\<close> is returned as it is; \<open>hier\<close> is
  returned unchanged, in lower case.
\<close>

theorem relative_time_fallback:
  "find_first (is_tag ''time'') soup = Some t \<and> iso_attribute w t = None
     \<and> text = lower (clean_text (Some (get_text t)))
     \<and> n = (case first_digits text of None \<Rightarrow> 1 | Some ds \<Rightarrow> int_of_digits ds)
     \<and> feb = \<lparr>year = 2024, month = 2, day = 1, hour = 0, minute = 0, second = 0,
                microsecond = us\<rparr>
   \<longrightarrow>
     parse_publication_date w now soup = resolve_relative_spec now text
   \<and> (contains ''minute'' text
        \<longrightarrow> parse_publication_date w now soup = moment_before now (timedelta 0 0 n) text)
   \<and> (\<not> contains ''minute'' text \<and> contains ''heure'' text
        \<longrightarrow> parse_publication_date w now soup = moment_before now (timedelta 0 n 0) text)
   \<and> (\<not> contains ''minute'' text \<and> \<not> contains ''heure'' text \<and> contains ''jour'' text
        \<longrightarrow> parse_publication_date w now soup = moment_before now (timedelta n 0 0) text)
   \<and> (\<not> contains ''minute'' text \<and> \<not> contains ''heure'' text \<and> \<not> contains ''jour'' text
        \<and> contains ''mois'' text
        \<longrightarrow> parse_publication_date w now soup = moment_before now (timedelta (30 * n) 0 0) text)
   \<and> (\<not> contains ''minute'' text \<and> \<not> contains ''heure'' text \<and> \<not> contains ''jour'' text
        \<and> \<not> contains ''mois'' text \<and> contains ''an'' text
        \<longrightarrow> parse_publication_date w now soup = moment_before now (timedelta (365 * n) 0 0) text)
   \<and> (\<not> contains ''minute'' text \<and> \<not> contains ''heure'' text \<and> \<not> contains ''jour'' text
        \<and> \<not> contains ''mois'' text \<and> \<not> contains ''an'' text
        \<longrightarrow> parse_publication_date w now soup = text)
   \<and> (timedelta d h m = Some span \<and> datetime_sub now span = Some dt
        \<longrightarrow> moment_before now (timedelta d h m) text = strftime dt)
   \<and> (timedelta d h m = None \<or> (\<exists>span. timedelta d h m = Some span \<and> datetime_sub now span = None)
        \<longrightarrow> moment_before now (timedelta d h m) text = text)
   \<and> (get_text t = ''il y a 3 jours''
        \<longrightarrow> parse_publication_date w feb soup = ''2024-01-29 00:00:00'')
   \<and> (get_text t = ''Il y a 3 JOURS''
        \<longrightarrow> parse_publication_date w feb soup = ''2024-01-29 00:00:00'')
   \<and> (get_text t = ''il y a 2 heures 5 minutes''
        \<longrightarrow> parse_publication_date w feb soup = ''2024-01-31 23:58:00'')
   \<and> (get_text t = ''Il y a un an''
        \<longrightarrow> parse_publication_date w feb soup = ''2023-02-01 00:00:00'')
   \<and> (get_text t = ''il y a 1500 ans''
        \<longrightarrow> parse_publication_date w feb soup = ''525-01-30 00:00:00'')
   \<and> (get_text t = ''il y a 3000 ans''
        \<longrightarrow> parse_publication_date w feb soup = ''il y a 3000 ans'')
   \<and> (get_text t = ''hier'' \<longrightarrow> parse_publication_date w now soup = ''hier'')
   \<and> (get_text t = '' HIER '' \<longrightarrow> parse_publication_date w now soup = ''hier'')"
proof (intro impI)
  assume a: "find_first (is_tag ''time'') soup = Some t \<and> iso_attribute w t = None
     \<and> text = lower (clean_text (Some (get_text t)))
     \<and> n = (case first_digits text of None \<Rightarrow> 1 | Some ds \<Rightarrow> int_of_digits ds)
     \<and> feb = \<lparr>year = 2024, month = 2, day = 1, hour = 0, minute = 0, second = 0,
                microsecond = us\<rparr>"
  have q: "parse_publication_date w x soup
             = relative_time x (lower (clean_text (Some (get_text t))))" for x
    using a by (simp add: parse_publication_date_def)
  have p: "parse_publication_date w x soup = relative_time x text" for x
    using a q by simp
  have n: "(case first_digits text of None \<Rightarrow> 1 | Some ds \<Rightarrow> int_of_digits ds) = n"
    using a by simp
  have feb: "feb = \<lparr>year = 2024, month = 2, day = 1, hour = 0, minute = 0, second = 0,
                microsecond = us\<rparr>"
    using a by simp
  have m: "n * 30 = 30 * n" "n * 365 = 365 * n" by simp_all
  have r0: "parse_publication_date w now soup = resolve_relative_spec now text"
    by (simp only: p relative_time_spec)
  have r1: "contains ''minute'' text
        \<longrightarrow> parse_publication_date w now soup = moment_before now (timedelta 0 0 n) text"
    by (simp add: p relative_time_def n moment_before_def)
  have r2: "\<not> contains ''minute'' text \<and> contains ''heure'' text
        \<longrightarrow> parse_publication_date w now soup = moment_before now (timedelta 0 n 0) text"
    by (simp add: p relative_time_def n moment_before_def)
  have r3: "\<not> contains ''minute'' text \<and> \<not> contains ''heure'' text \<and> contains ''jour'' text
        \<longrightarrow> parse_publication_date w now soup = moment_before now (timedelta n 0 0) text"
    by (simp add: p relative_time_def n moment_before_def)
  have r4: "\<not> contains ''minute'' text \<and> \<not> contains ''heure'' text \<and> \<not> contains ''jour'' text
        \<and> contains ''mois'' text
        \<longrightarrow> parse_publication_date w now soup = moment_before now (timedelta (30 * n) 0 0) text"
    by (simp add: p relative_time_def n m moment_before_def)
  have r5: "\<not> contains ''minute'' text \<and> \<not> contains ''heure'' text \<and> \<not> contains ''jour'' text
        \<and> \<not> contains ''mois'' text \<and> contains ''an'' text
        \<longrightarrow> parse_publication_date w now soup = moment_before now (timedelta (365 * n) 0 0) text"
    by (simp add: p relative_time_def n m moment_before_def)
  have r6: "\<not> contains ''minute'' text \<and> \<not> contains ''heure'' text \<and> \<not> contains ''jour'' text
        \<and> \<not> contains ''mois'' text \<and> \<not> contains ''an'' text
        \<longrightarrow> parse_publication_date w now soup = text"
    by (simp add: p relative_time_def n)
  have s1: "timedelta d h m = Some span \<and> datetime_sub now span = Some dt
        \<longrightarrow> moment_before now (timedelta d h m) text = strftime dt"
    by (simp add: moment_before_def)
  have s2: "timedelta d h m = None \<or> (\<exists>span. timedelta d h m = Some span \<and> datetime_sub now span = None)
        \<longrightarrow> moment_before now (timedelta d h m) text = text"
    by (auto simp: moment_before_def)
  have e1: "get_text t = ''il y a 3 jours''
        \<longrightarrow> parse_publication_date w feb soup = ''2024-01-29 00:00:00''"
    by (simp add: q feb lower_examples relative_time_examples del: One_nat_def)
  have e2: "get_text t = ''Il y a 3 JOURS''
        \<longrightarrow> parse_publication_date w feb soup = ''2024-01-29 00:00:00''"
    by (simp add: q feb lower_examples relative_time_examples del: One_nat_def)
  have e3: "get_text t = ''il y a 2 heures 5 minutes''
        \<longrightarrow> parse_publication_date w feb soup = ''2024-01-31 23:58:00''"
    by (simp add: q feb lower_examples relative_time_examples del: One_nat_def)
  have e4: "get_text t = ''Il y a un an''
        \<longrightarrow> parse_publication_date w feb soup = ''2023-02-01 00:00:00''"
    by (simp add: q feb lower_examples relative_time_examples del: One_nat_def)
  have e5: "get_text t = ''il y a 1500 ans''
        \<longrightarrow> parse_publication_date w feb soup = ''525-01-30 00:00:00''"
    by (simp add: q feb lower_examples relative_time_examples del: One_nat_def)
  have e6: "get_text t = ''il y a 3000 ans''
        \<longrightarrow> parse_publication_date w feb soup = ''il y a 3000 ans''"
    by (simp add: q feb lower_examples relative_time_examples del: One_nat_def)
  have e7: "get_text t = ''hier'' \<longrightarrow> parse_publication_date w now soup = ''hier''"
    by (simp add: q lower_examples relative_time_examples)
  have e8: "get_text t = '' HIER '' \<longrightarrow> parse_publication_date w now soup = ''hier''"
    by (simp add: q lower_examples relative_time_examples)
  from r0 r1 r2 r3 r4 r5 r6 s1 s2 e1 e2 e3 e4 e5 e6 e7 e8
  show "parse_publication_date w now soup = resolve_relative_spec now text
   \<and> (contains ''minute'' text
        \<longrightarrow> parse_publication_date w now soup = moment_before now (timedelta 0 0 n) text)
   \<and> (\<not> contains ''minute'' text \<and> contains ''heure'' text
        \<longrightarrow> parse_publication_date w now soup = moment_before now (timedelta 0 n 0) text)
   \<and> (\<not> contains ''minute'' text \<and> \<not> contains ''heure'' text \<and> contains ''jour'' text
        \<longrightarrow> parse_publication_date w now soup = moment_before now (timedelta n 0 0) text)
   \<and> (\<not> contains ''minute'' text \<and> \<not> contains ''heure'' text \<and> \<not> contains ''jour'' text
        \<and> contains ''mois'' text
        \<longrightarrow> parse_publication_date w now soup = moment_before now (timedelta (30 * n) 0 0) text)
   \<and> (\<not> contains ''minute'' text \<and> \<not> contains ''heure'' text \<and> \<not> contains ''jour'' text
        \<and> \<not> contains ''mois'' text \<and> contains ''an'' text
        \<longrightarrow> parse_publication_date w now soup = moment_before now (timedelta (365 * n) 0 0) text)
   \<and> (\<not> contains ''minute'' text \<and> \<not> contains ''heure'' text \<and> \<not> contains ''jour'' text
        \<and> \<not> contains ''mois'' text \<and> \<not> contains ''an'' text
        \<longrightarrow> parse_publication_date w now soup = text)
   \<and> (timedelta d h m = Some span \<and> datetime_sub now span = Some dt
        \<longrightarrow> moment_before now (timedelta d h m) text = strftime dt)
   \<and> (timedelta d h m = None \<or> (\<exists>span. timedelta d h m = Some span \<and> datetime_sub now span = None)
        \<longrightarrow> moment_before now (timedelta d h m) text = text)
   \<and> (get_text t = ''il y a 3 jours''
        \<longrightarrow> parse_publication_date w feb soup = ''2024-01-29 00:00:00'')
   \<and> (get_text t = ''Il y a 3 JOURS''
        \<longrightarrow> parse_publication_date w feb soup = ''2024-01-29 00:00:00'')
   \<and> (get_text t = ''il y a 2 heures 5 minutes''
        \<longrightarrow> parse_publication_date w feb soup = ''2024-01-31 23:58:00'')
   \<and> (get_text t = ''Il y a un an''
        \<longrightarrow> parse_publication_date w feb soup = ''2023-02-01 00:00:00'')
   \<and> (get_text t = ''il y a 1500 ans''
        \<longrightarrow> parse_publication_date w feb soup = ''525-01-30 00:00:00'')
   \<and> (get_text t = ''il y a 3000 ans''
        \<longrightarrow> parse_publication_date w feb soup = ''il y a 3000 ans'')
   \<and> (get_text t = ''hier'' \<longrightarrow> parse_publication_date w now soup = ''hier'')
   \<and> (get_text t = '' HIER '' \<longrightarrow> parse_publication_date w now soup = ''hier'')"
    by (intro conjI)
qed

theorem relative_time_fallback_witness:
  "parse_publication_date quiet_world
     \<lparr>year = 2024, month = 2, day = 1, hour = 0, minute = 0, second = 0, microsecond = 0\<rparr>
     (Elem ''[document]'' [] [Elem ''time'' [] [Text ''Il y a 3 JOURS'']])
     = ''2024-01-29 00:00:00''
   \<and> parse_publication_date quiet_world epoch
     (Elem ''[document]'' [] [Elem ''time'' [] [Text '' HIER '']]) = ''hier''"
proof -
  let ?feb = "\<lparr>year = 2024, month = 2, day = 1, hour = 0, minute = 0, second = 0,
               microsecond = 0\<rparr>"
  let ?t1 = "Elem ''time'' [] [Text ''Il y a 3 JOURS'']"
  let ?t2 = "Elem ''time'' [] [Text '' HIER '']"
  have h1: "find_first (is_tag ''time'') (Elem ''[document]'' [] [?t1]) = Some ?t1
     \<and> iso_attribute quiet_world ?t1 = None
     \<and> ''il y a 3 jours'' = lower (clean_text (Some (get_text ?t1)))
     \<and> 3 = (case first_digits ''il y a 3 jours'' of None \<Rightarrow> 1 | Some ds \<Rightarrow> int_of_digits ds)
     \<and> ?feb = \<lparr>year = 2024, month = 2, day = 1, hour = 0, minute = 0, second = 0,
                microsecond = 0\<rparr>"
    by (simp add: time_document lower_examples number_examples del: One_nat_def)
  have h2: "find_first (is_tag ''time'') (Elem ''[document]'' [] [?t2]) = Some ?t2
     \<and> iso_attribute quiet_world ?t2 = None
     \<and> ''hier'' = lower (clean_text (Some (get_text ?t2)))
     \<and> 1 = (case first_digits ''hier'' of None \<Rightarrow> 1 | Some ds \<Rightarrow> int_of_digits ds)
     \<and> ?feb = \<lparr>year = 2024, month = 2, day = 1, hour = 0, minute = 0, second = 0,
                microsecond = 0\<rparr>"
    by (simp add: time_document lower_examples number_examples del: One_nat_def)
  have "get_text ?t1 = ''Il y a 3 JOURS''
          \<longrightarrow> parse_publication_date quiet_world ?feb (Elem ''[document]'' [] [?t1])
                = ''2024-01-29 00:00:00''"
    using relative_time_fallback [of "Elem ''[document]'' [] [?t1]" ?t1 quiet_world
        "''il y a 3 jours''" 3 ?feb 0 ?feb 0 0 0 0 epoch, THEN mp, OF h1]
    by (elim conjE)
  then have 1: "parse_publication_date quiet_world ?feb (Elem ''[document]'' [] [?t1])
                  = ''2024-01-29 00:00:00''"
    by (simp add: time_document)
  have "get_text ?t2 = '' HIER ''
          \<longrightarrow> parse_publication_date quiet_world epoch (Elem ''[document]'' [] [?t2]) = ''hier''"
    using relative_time_fallback [of "Elem ''[document]'' [] [?t2]" ?t2 quiet_world
        "''hier''" 1 ?feb 0 epoch 0 0 0 0 epoch, THEN mp, OF h2]
    by (elim conjE)
  then have 2: "parse_publication_date quiet_world epoch (Elem ''[document]'' [] [?t2]) = ''hier''"
    by (simp add: time_document)
  from 1 2 show ?thesis by (intro conjI)
qed

subsection \<open>Record extraction\<close>

lemma wait_h1_found:
  "look i = Inr True \<Longrightarrow> 0 < k \<Longrightarrow> wait_h1 look i k = Inr (Suc i)"
  by (cases k) simp_all

lemma wait_equip_never: "wait_equip_stable (\<lambda>k. Inr 0) = Inr (10, 0, False)"
  using poll_equip_exhausted [of 0 10 "\<lambda>k. 0" 0]
  by (simp add: wait_equip_stable_def fixed_point_def)

lemma fetch_static_page:
  "fetch_page_with_selenium (static_page html) = Inr (html, [])"
  by (simp add: fetch_page_with_selenium_def static_page_def blank_page_def wait_h1_found
      wait_equip_never extract_equipments_def)

lemma find_first_None: "find_first p soup = None \<longleftrightarrow> \<not> list_ex p (descendants soup)"
  by (auto simp: find_first_def find_None_iff list_ex_iff)

lemma find_all_Nil: "find_all p soup = [] \<longleftrightarrow> \<not> list_ex p (descendants soup)"
  by (simp add: find_all_def filter_empty_conv list_ex_iff)

lemma find_then_next_None:
  "find_then_next p q soup = None \<longleftrightarrow> \<not> list_ex p (descendants soup)"
proof (cases "dropWhile (\<lambda>n. \<not> p n) (descendants soup)")
  case Nil
  then have "\<not> list_ex p (descendants soup)"
    by (auto simp: list_ex_iff)
  with Nil show ?thesis
    by (simp only: find_then_next_def list.case simp_thms)
next
  case (Cons n ns)
  then have "p n"
    by (simp add: dropWhile_eq_Cons_conv)
  moreover have "n \<in> set (descendants soup)"
    using set_dropWhileD [of n "\<lambda>n. \<not> p n" "descendants soup"] Cons by simp
  ultimately have "list_ex p (descendants soup)"
    by (auto simp: list_ex_iff)
  with Cons show ?thesis
    by (simp only: find_then_next_def list.case option.distinct simp_thms)
qed

lemma images_none:
  assumes "\<not> list_ex (\<lambda>n. is_tag ''img'' n \<and>
              (case get_attr n ''src'' of None \<Rightarrow> False
               | Some src \<Rightarrow> contains ''content.avito.ma'' src)) (descendants soup)"
  shows "images soup = []"
proof -
  have "foldl add_image [] xs = []"
    if "\<forall>n \<in> set xs. \<not> (case get_attr n ''src'' of None \<Rightarrow> False
               | Some src \<Rightarrow> contains ''content.avito.ma'' src)" for xs
    using that by (induction xs) (auto simp: add_image_def split: option.splits)
  moreover have "\<forall>n \<in> set (find_all (is_tag ''img'') soup).
      \<not> (case get_attr n ''src'' of None \<Rightarrow> False
               | Some src \<Rightarrow> contains ''content.avito.ma'' src)"
    using assms by (auto simp: find_all_def list_ex_iff)
  ultimately show ?thesis by (simp add: images_def)
qed

lemma json_empty: "json_list [] = ''[]''" "json_dict [] = ''{}''"
  by (simp_all add: json_list_def json_dict_def)

lemma extract_record_keys:
  "map fst (extract_record w now uid url equipments html) = spec_field_order"
  by (simp add: extract_record_def spec_field_order_def Let_def)

lemma extract_record_fields:
  "field (extract_record w now uid url equipments html) ''id'' = uid"
  "field (extract_record w now uid url equipments html) ''url'' = url"
  "field (extract_record w now uid url equipments html) ''title''
     = field_text (find_first (is_tag ''h1'') (lxml_parser w html))"
  "field (extract_record w now uid url equipments html) ''price''
     = field_text (find_first (\<lambda>n. is_tag ''p'' n \<and> class_matches ''sc-16573058-12'' n)
         (lxml_parser w html))"
  "field (extract_record w now uid url equipments html) ''location''
     = field_text (find_first (\<lambda>n. is_tag ''span'' n \<and> class_matches ''sc-16573058-17'' n)
         (lxml_parser w html))"
  "field (extract_record w now uid url equipments html) ''publication_time''
     = parse_publication_date w now (lxml_parser w html)"
  "field (extract_record w now uid url equipments html) ''seller''
     = field_text (find_first (\<lambda>n. get_attr n ''data-testid'' = Some ''SellerName'')
         (lxml_parser w html))"
  "field (extract_record w now uid url equipments html) ''category''
     = category (lxml_parser w html)"
  "field (extract_record w now uid url equipments html) ''description''
     = field_text (find_first (\<lambda>n. is_tag ''div'' n \<and> class_matches ''sc-9bb253d7-0'' n)
         (lxml_parser w html))"
  "field (extract_record w now uid url equipments html) ''breadcrumb''
     = json_list (breadcrumb (lxml_parser w html))"
  "field (extract_record w now uid url equipments html) ''properties''
     = json_dict (properties (lxml_parser w html))"
  "field (extract_record w now uid url equipments html) ''equipments'' = json_list equipments"
  "field (extract_record w now uid url equipments html) ''images''
     = json_list (images (lxml_parser w html))"
  by (simp_all add: extract_record_def field_def Let_def)

text \<open>
  Counterexample to claim C7 as stated: for an empty page source \<open>parse_publication\<close>
  returns \<open>None\<close>, not a record.
\<close>

theorem extraction_empty_source_counterexample:
  "parse_publication (static_world [] bare_doc) 1 ''https://www.avito.ma/fr/maroc/a_12345.htm''
     = Inr None"
  by (simp add: parse_publication_def static_world_def quiet_world_def fetch_static_page)

text \<open>
  Claim C7, as amended. For every page that was fetched with a non-empty page source,
  \<open>parse_publication\<close> raises nothing and returns a record with exactly the thirteen
  fields, in the order of the specification. The identifier is the generated one and
  the URL the one given; every other field whose anchor is not in the document holds
  its empty default: the empty string for the texts, and the encoding of the empty
  list or dictionary for breadcrumb, properties, equipments and images.
\<close>

theorem extraction_defaults:
  "fetch_page_with_selenium (browse w url) = Inr (html, equipments) \<and> html \<noteq> []
     \<and> soup = lxml_parser w html
   \<longrightarrow>
   (\<exists>r. parse_publication w i url = Inr (Some r)
      \<and> map fst r = spec_field_order
      \<and> field r ''id'' = uuid4 w i
      \<and> field r ''url'' = url
      \<and> (\<not> list_ex (is_tag ''h1'') (descendants soup) \<longrightarrow> field r ''title'' = [])
      \<and> (\<not> list_ex (\<lambda>n. is_tag ''p'' n \<and> class_matches ''sc-16573058-12'' n) (descendants soup)
           \<longrightarrow> field r ''price'' = [])
      \<and> (\<not> list_ex (\<lambda>n. is_tag ''span'' n \<and> class_matches ''sc-16573058-17'' n) (descendants soup)
           \<longrightarrow> field r ''location'' = [])
      \<and> (\<not> list_ex (is_tag ''time'') (descendants soup) \<longrightarrow> field r ''publication_time'' = [])
      \<and> (\<not> list_ex (\<lambda>n. get_attr n ''data-testid'' = Some ''SellerName'') (descendants soup)
           \<longrightarrow> field r ''seller'' = [])
      \<and> (\<not> list_ex is_category_label (descendants soup) \<longrightarrow> field r ''category'' = [])
      \<and> (\<not> list_ex (\<lambda>n. is_tag ''div'' n \<and> class_matches ''sc-9bb253d7-0'' n) (descendants soup)
           \<longrightarrow> field r ''description'' = [])
      \<and> (\<not> list_ex (is_tag ''ol'') (descendants soup) \<longrightarrow> field r ''breadcrumb'' = ''[]'')
      \<and> (\<not> list_ex is_property_block (descendants soup) \<longrightarrow> field r ''properties'' = ''{}'')
      \<and> (equipments = [] \<longrightarrow> field r ''equipments'' = ''[]'')
      \<and> (\<not> list_ex (\<lambda>n. is_tag ''img'' n \<and>
              (case get_attr n ''src'' of None \<Rightarrow> False
               | Some src \<Rightarrow> contains ''content.avito.ma'' src)) (descendants soup)
           \<longrightarrow> field r ''images'' = ''[]''))"
proof
  assume a: "fetch_page_with_selenium (browse w url) = Inr (html, equipments) \<and> html \<noteq> []
     \<and> soup = lxml_parser w html"
  let ?r = "extract_record w (clock w i) (uuid4 w i) url equipments html"
  have run: "parse_publication w i url = Inr (Some ?r)"
    using a by (simp add: parse_publication_def)
  have soup: "lxml_parser w html = soup" using a by simp
  note f = extract_record_fields [of w "clock w i" "uuid4 w i" url equipments html, unfolded soup]
  have t: "\<not> list_ex p (descendants soup) \<Longrightarrow> field_text (find_first p soup) = []" for p
    by (simp add: find_first_None [symmetric] field_text_def)
  have 1: "\<not> list_ex (is_tag ''h1'') (descendants soup) \<longrightarrow> field ?r ''title'' = []"
    by (simp only: f) (simp add: t)
  have 2: "\<not> list_ex (\<lambda>n. is_tag ''p'' n \<and> class_matches ''sc-16573058-12'' n) (descendants soup)
           \<longrightarrow> field ?r ''price'' = []"
    by (simp only: f) (simp add: t)
  have 3: "\<not> list_ex (\<lambda>n. is_tag ''span'' n \<and> class_matches ''sc-16573058-17'' n) (descendants soup)
           \<longrightarrow> field ?r ''location'' = []"
    by (simp only: f) (simp add: t)
  have 4: "\<not> list_ex (is_tag ''time'') (descendants soup) \<longrightarrow> field ?r ''publication_time'' = []"
    by (simp only: f) (simp add: parse_publication_date_def find_first_None [symmetric])
  have 5: "\<not> list_ex (\<lambda>n. get_attr n ''data-testid'' = Some ''SellerName'') (descendants soup)
           \<longrightarrow> field ?r ''seller'' = []"
    by (simp only: f) (simp add: t)
  have 6: "\<not> list_ex is_category_label (descendants soup) \<longrightarrow> field ?r ''category'' = []"
  proof
    assume "\<not> list_ex is_category_label (descendants soup)"
    then have "find_then_next is_category_label (is_tag ''span'') soup = None"
      by (rule find_then_next_None [THEN iffD2])
    then show "field ?r ''category'' = []"
      by (simp add: f category_def)
  qed
  have 7: "\<not> list_ex (\<lambda>n. is_tag ''div'' n \<and> class_matches ''sc-9bb253d7-0'' n) (descendants soup)
           \<longrightarrow> field ?r ''description'' = []"
    by (simp only: f) (simp add: t)
  have 8: "\<not> list_ex (is_tag ''ol'') (descendants soup) \<longrightarrow> field ?r ''breadcrumb'' = ''[]''"
    by (simp only: f) (simp add: breadcrumb_def find_first_None [symmetric] json_empty)
  have 9: "\<not> list_ex is_property_block (descendants soup) \<longrightarrow> field ?r ''properties'' = ''{}''"
    by (simp only: f) (simp add: properties_def find_all_Nil [symmetric] json_empty)
  have 10: "equipments = [] \<longrightarrow> field ?r ''equipments'' = ''[]''"
    by (simp only: f) (simp add: json_empty)
  have 11: "\<not> list_ex (\<lambda>n. is_tag ''img'' n \<and>
              (case get_attr n ''src'' of None \<Rightarrow> False
               | Some src \<Rightarrow> contains ''content.avito.ma'' src)) (descendants soup)
           \<longrightarrow> field ?r ''images'' = ''[]''"
    by (simp only: f) (simp add: images_none json_empty)
  have k: "map fst ?r = spec_field_order" by (rule extract_record_keys)
  from run k f(1,2) 1 2 3 4 5 6 7 8 9 10 11
  show "\<exists>r. parse_publication w i url = Inr (Some r)
      \<and> map fst r = spec_field_order
      \<and> field r ''id'' = uuid4 w i
      \<and> field r ''url'' = url
      \<and> (\<not> list_ex (is_tag ''h1'') (descendants soup) \<longrightarrow> field r ''title'' = [])
      \<and> (\<not> list_ex (\<lambda>n. is_tag ''p'' n \<and> class_matches ''sc-16573058-12'' n) (descendants soup)
           \<longrightarrow> field r ''price'' = [])
      \<and> (\<not> list_ex (\<lambda>n. is_tag ''span'' n \<and> class_matches ''sc-16573058-17'' n) (descendants soup)
           \<longrightarrow> field r ''location'' = [])
      \<and> (\<not> list_ex (is_tag ''time'') (descendants soup) \<longrightarrow> field r ''publication_time'' = [])
      \<and> (\<not> list_ex (\<lambda>n. get_attr n ''data-testid'' = Some ''SellerName'') (descendants soup)
           \<longrightarrow> field r ''seller'' = [])
      \<and> (\<not> list_ex is_category_label (descendants soup) \<longrightarrow> field r ''category'' = [])
      \<and> (\<not> list_ex (\<lambda>n. is_tag ''div'' n \<and> class_matches ''sc-9bb253d7-0'' n) (descendants soup)
           \<longrightarrow> field r ''description'' = [])
      \<and> (\<not> list_ex (is_tag ''ol'') (descendants soup) \<longrightarrow> field r ''breadcrumb'' = ''[]'')
      \<and> (\<not> list_ex is_property_block (descendants soup) \<longrightarrow> field r ''properties'' = ''{}'')
      \<and> (equipments = [] \<longrightarrow> field r ''equipments'' = ''[]'')
      \<and> (\<not> list_ex (\<lambda>n. is_tag ''img'' n \<and>
              (case get_attr n ''src'' of None \<Rightarrow> False
               | Some src \<Rightarrow> contains ''content.avito.ma'' src)) (descendants soup)
           \<longrightarrow> field r ''images'' = ''[]'')"
    by (intro exI [of _ ?r] conjI)
qed

theorem extraction_defaults_witness:
  "\<exists>r. parse_publication (static_world ''<html><body>Not found</body></html>'' bare_doc) 1
          ''https://www.avito.ma/fr/maroc/a_12345.htm'' = Inr (Some r)
      \<and> map fst r = spec_field_order
      \<and> field r ''id'' = uuid4 (static_world ''<html><body>Not found</body></html>'' bare_doc) 1
      \<and> field r ''url'' = ''https://www.avito.ma/fr/maroc/a_12345.htm''
      \<and> field r ''title'' = [] \<and> field r ''price'' = [] \<and> field r ''location'' = []
      \<and> field r ''publication_time'' = [] \<and> field r ''seller'' = []
      \<and> field r ''category'' = [] \<and> field r ''description'' = []
      \<and> field r ''breadcrumb'' = ''[]'' \<and> field r ''properties'' = ''{}''
      \<and> field r ''equipments'' = ''[]'' \<and> field r ''images'' = ''[]''"
proof -
  let ?h = "''<html><body>Not found</body></html>''"
  let ?w = "static_world ?h bare_doc"
  have b: "browse ?w url = static_page ?h" "lxml_parser ?w html = bare_doc" for url html
    by (simp_all add: static_world_def quiet_world_def)
  have d: "descendants bare_doc
             = [Elem ''html'' [] [Elem ''body'' [] [Text ''Not found'']],
                Elem ''body'' [] [Text ''Not found''], Text ''Not found'']"
    by (simp add: bare_doc_def)
  show ?thesis
    using extraction_defaults [of ?w "''https://www.avito.ma/fr/maroc/a_12345.htm''" ?h "[]"
        bare_doc 1]
    by (simp add: b d fetch_static_page is_tag_def get_attr_def is_category_label_def
        is_property_block_def)
qed

subsection \<open>Persistence and the run\<close>

lemma writerow_ok:
  "set (map fst row) \<subseteq> set keys \<Longrightarrow> writerow row = Inr (csv_row (map (field row) keys))"
  by (auto simp: writerow_def list_ex_iff)

lemma write_rows_ok:
  "list_all (\<lambda>r. set (map fst r) \<subseteq> set keys) rows \<Longrightarrow>
     write_rows rows out = Inr (out @ concat (map (\<lambda>r. csv_row (map (field r) keys)) rows))"
  by (induction rows arbitrary: out) (simp_all add: writerow_ok)

lemma keys_spec: "set keys = set spec_field_order" "length keys = 13" "distinct keys"
  by (auto simp: keys_def spec_field_order_def)

lemma save_csv_ok:
  "list_all (\<lambda>r. map fst r = spec_field_order) rows \<Longrightarrow>
     save_csv rows = Inr (csv_row keys @ concat (map (\<lambda>r. csv_row (map (field r) keys)) rows))"
proof -
  assume "list_all (\<lambda>r. map fst r = spec_field_order) rows"
  then have "list_all (\<lambda>r. set (map fst r) \<subseteq> set keys) rows"
    unfolding list_all_iff keys_spec(1)
    by (metis subset_refl)
  then show ?thesis
    unfolding save_csv_def by (rule write_rows_ok)
qed

text \<open>
  Counterexample to claim C6 as stated: the header row that \<open>save_csv\<close> writes has
  \<open>breadcrumb\<close> in the seventh place, where the specification lists the seller.
\<close>

theorem persistence_field_order_counterexample:
  "save_csv [] = Inr (csv_row keys)
   \<and> keys ! 6 = ''breadcrumb'' \<and> spec_field_order ! 6 = ''seller''
   \<and> keys \<noteq> spec_field_order"
  by (simp add: save_csv_def keys_def spec_field_order_def)

text \<open>
  Claim C6, as amended. Every record that \<open>parse_publication\<close> builds has exactly the
  thirteen fields of the specification, each holding one text value. \<open>save_csv\<close>
  writes a header row and one row per record, every value as one quoted field, in the
  order of its own list of field names: id, url, title, price, location,
  publication_time, breadcrumb, category, seller, description, properties, equipments,
  images.
\<close>

theorem persistence_field_order:
  "(list_all (\<lambda>r. map fst r = spec_field_order) rows \<longrightarrow>
      save_csv rows = Inr (csv_row keys @ concat (map (\<lambda>r. csv_row (map (field r) keys)) rows)))
   \<and> keys = [''id'', ''url'', ''title'', ''price'', ''location'', ''publication_time'',
              ''breadcrumb'', ''category'', ''seller'', ''description'', ''properties'',
              ''equipments'', ''images'']
   \<and> set keys = set spec_field_order \<and> length keys = 13 \<and> distinct keys
   \<and> map fst (extract_record w now uid url equipments html) = spec_field_order"
  using save_csv_ok [of rows] keys_spec extract_record_keys [of w now uid url equipments html]
  by (simp add: keys_def)

theorem persistence_field_order_witness:
  "save_csv [extract_record quiet_world epoch ''1'' ''u'' [] ''<html>'']
     = Inr (csv_row keys
            @ csv_row (map (field (extract_record quiet_world epoch ''1'' ''u'' [] ''<html>'')) keys))"
  using persistence_field_order [of "[extract_record quiet_world epoch ''1'' ''u'' [] ''<html>'']"]
    extract_record_keys [of quiet_world epoch "''1''" "''u''" "[]" "''<html>''"]
  by simp

lemma links_loop_done:
  "\<not> interrupted w i links \<Longrightarrow>
     links_loop w i links results = (None, results @ successful_records w i links)"
proof (induction links arbitrary: i results)
  case Nil
  then show ?case by simp
next
  case (Cons link links)
  then have IH: "links_loop w (Suc i) links rs = (None, rs @ successful_records w (Suc i) links)" for rs
    by simp
  have p: "pause w i = None" using Cons.prems by simp
  show ?case
  proof (cases "parse_publication w i link")
    case (Inl e)
    with Cons.prems have "e = Exception" by (cases e) simp_all
    with Inl IH p show ?thesis by simp
  next
    case (Inr r)
    with IH p show ?thesis by (cases r) simp_all
  qed
qed

lemma links_loop_interrupted:
  "interrupted w i links \<Longrightarrow> fst (links_loop w i links results) \<noteq> None"
proof (induction links arbitrary: i results)
  case Nil
  then show ?case by simp
next
  case (Cons link links)
  show ?case
  proof (cases "parse_publication w i link")
    case (Inl e)
    with Cons show ?thesis
      by (cases e; cases "pause w i") auto
  next
    case (Inr r)
    with Cons show ?thesis
      by (cases r; cases "pause w i") auto
  qed
qed

lemma successful_records_keys:
  "list_all (\<lambda>r. map fst r = spec_field_order) (successful_records w i links)"
proof (induction links arbitrary: i)
  case Nil
  then show ?case by simp
next
  case (Cons link links)
  have "parse_publication w i link = Inr (Some r) \<Longrightarrow> map fst r = spec_field_order" for r
    by (auto simp: parse_publication_def extract_record_keys split: sum.splits prod.splits if_splits)
  with Cons show ?case
    by (auto split: sum.splits option.splits)
qed

lemma effects_counts:
  "created \<lparr>effects = [], collected = c, written = x, escaped = y\<rparr> = 0"
  "closed \<lparr>effects = [], collected = c, written = x, escaped = y\<rparr> = 0"
  "persisted \<lparr>effects = [], collected = c, written = x, escaped = y\<rparr> = []"
  "created \<lparr>effects = [Created, Quit], collected = c, written = x, escaped = y\<rparr> = 1"
  "closed \<lparr>effects = [Created, Quit], collected = c, written = x, escaped = y\<rparr> = 1"
  "persisted \<lparr>effects = [Created, Quit], collected = c, written = x, escaped = y\<rparr> = []"
  "created \<lparr>effects = [Created, Quit, Save rows], collected = c, written = x, escaped = y\<rparr> = 1"
  "closed \<lparr>effects = [Created, Quit, Save rows], collected = c, written = x, escaped = y\<rparr> = 1"
  "persisted \<lparr>effects = [Created, Quit, Save rows], collected = c, written = x, escaped = y\<rparr>
     = [rows]"
  by (simp_all add: created_def closed_def persisted_def)




lemma main_persisted:
  assumes "get_links w MAX_PAGES MAX_LINKS = Inr links"
  shows "persisted (main w)
           = (if links \<noteq> [] \<and> create_driver w = None \<and> \<not> interrupted w 1 links
                 \<and> quit_driver w = None
              then [successful_records w 1 links] else [])"
proof (cases "links \<noteq> [] \<and> create_driver w = None")
  case False
  with assms show ?thesis
    by (auto simp: main_def start_session_def effects_counts)
next
  case True
  show ?thesis
  proof (cases "interrupted w 1 links")
    case False
    have loop: "links_loop w 1 links [] = (None, successful_records w 1 links)"
      using links_loop_done [OF False, of "[]"] by simp
    show ?thesis
      using assms True False
      by (simp add: main_def start_session_def end_session_def loop effects_counts
          split: sum.splits option.splits del: One_nat_def)
  next
    case i: True
    obtain e rs where loop: "links_loop w 1 links [] = (Some e, rs)"
      using links_loop_interrupted [OF i, of "[]"]
      by (cases "links_loop w 1 links []") auto
    show ?thesis
      using assms True i
      by (simp add: main_def start_session_def end_session_def loop effects_counts
          split: sum.splits option.splits del: One_nat_def)
  qed
qed

lemma main_written:
  assumes "get_links w MAX_PAGES MAX_LINKS = Inr links" "links \<noteq> []" "create_driver w = None"
    and "\<not> interrupted w 1 links" "quit_driver w = None" "open_output w = None"
  shows "written (main w)
           = Some (csv_row keys
                   @ concat (map (\<lambda>r. csv_row (map (field r) keys)) (successful_records w 1 links)))"
    and "escaped (main w) = None"
proof -
  have loop: "links_loop w 1 links [] = (None, successful_records w 1 links)"
    using links_loop_done [OF assms(4), of "[]"] by simp
  have save: "save_csv_file w (successful_records w 1 links)
           = Inr (csv_row keys
                   @ concat (map (\<lambda>r. csv_row (map (field r) keys)) (successful_records w 1 links)))"
    using save_csv_ok [OF successful_records_keys, of w 1 links] assms(6)
    by (simp add: save_csv_file_def)
  show "written (main w)
           = Some (csv_row keys
                   @ concat (map (\<lambda>r. csv_row (map (field r) keys)) (successful_records w 1 links)))"
    and "escaped (main w) = None"
    using assms(1,2,3,5)
    by (simp_all add: main_def start_session_def end_session_def loop save del: One_nat_def)
qed

lemma main_no_links:
  assumes "get_links w MAX_PAGES MAX_LINKS = Inr []"
  shows "persisted (main w) = []" "written (main w) = None" "escaped (main w) = None"
    "created (main w) = 0" "closed (main w) = 0"
  using assms by (simp_all add: main_def effects_counts)

lemma navigation_failure:
  "nav (browse w url) = Some e \<Longrightarrow> parse_publication w i url = Inl e"
  by (simp add: parse_publication_def fetch_page_with_selenium_def)

lemma one_round:
  assumes "requests_get w (page_url 1) = Inr h1"
    and "scan_anchors (urljoin w) ml (page_anchors w h1) [] 0 = (l1, 0)"
  shows "get_links w (Suc k) ml = Inr l1"
  using assms by (simp add: get_links_def get_links_log_def)

lemma two_rounds:
  assumes "requests_get w (page_url 1) = Inr h1" "requests_get w (page_url 2) = Inr h2"
    and "scan_anchors (urljoin w) ml (page_anchors w h1) [] 0 = (l1, Suc n)"
    and "scan_anchors (urljoin w) ml (page_anchors w h2) l1 0 = (l2, 0)"
  shows "get_links w (Suc (Suc k)) ml = Inr l2"
  using assms by (simp add: get_links_def get_links_log_def del: One_nat_def)



lemma other_page_no_links:
  "get_links (same_page_world [''/fr/maroc/other'']) MAX_PAGES MAX_LINKS = Inr []"
proof -
  let ?w = "same_page_world [''/fr/maroc/other'']"
  have p: "\<not> detail_pattern ''https://www.avito.ma/fr/maroc/other''"
    by (simp add: pattern_eval)
  have "scan_anchors (urljoin ?w) MAX_LINKS (page_anchors ?w ''<html>'') [] 0 = ([], 0)"
    by (simp add: add_link_def resolve_def startswith_slash_def BASE_URL_def p)
  moreover have "MAX_PAGES = Suc 9" by (simp add: MAX_PAGES_def)
  ultimately show ?thesis
    using one_round [of ?w "''<html>''" MAX_LINKS "[]" 9] by simp
qed

lemma detail_links:
  "detail_pattern ''https://www.avito.ma/fr/maroc/a_1.htm''"
  "detail_pattern ''https://www.avito.ma/fr/maroc/a_2.htm''"
  "detail_pattern ''https://www.avito.ma/fr/maroc/a_3.htm''"
  by (simp_all add: pattern_eval)


lemma failing_world_links:
  "get_links failing_world MAX_PAGES MAX_LINKS = Inr [''https://www.avito.ma/fr/maroc/a_1.htm'']"
proof -
  let ?w = "failing_world"
  let ?L = "[''https://www.avito.ma/fr/maroc/a_1.htm'']"
  have w: "requests_get ?w url = Inr ''<html>''" "page_anchors ?w html = [''/fr/maroc/a_1.htm'']"
    "urljoin ?w = (\<lambda>base url. base @ url)" for url html
    by (simp_all add: failing_world_def same_page_world_def quiet_world_def page_anchors_def)
  have r: "resolve (\<lambda>base url. base @ url) ''/fr/maroc/a_1.htm'' = ''https://www.avito.ma/fr/maroc/a_1.htm''"
    by (simp_all add: resolve_def startswith_slash_def BASE_URL_def)
  have q: "split_query ''https://www.avito.ma/fr/maroc/a_1.htm'' = ''https://www.avito.ma/fr/maroc/a_1.htm''"
    by (simp_all add: split_query_def)
  have 1: "scan_anchors (urljoin ?w) MAX_LINKS (page_anchors ?w ''<html>'') [] 0 = (?L, Suc 0)"
    by (simp add: w add_link_def r q detail_links MAX_LINKS_def)
  have 2: "scan_anchors (urljoin ?w) MAX_LINKS (page_anchors ?w ''<html>'') ?L 0 = (?L, 0)"
    by (simp add: w add_link_def r q detail_links MAX_LINKS_def)
  have "MAX_PAGES = Suc (Suc 8)" by (simp add: MAX_PAGES_def)
  with two_rounds [OF w(1) w(1) 1 2, of 8] show ?thesis by simp
qed






lemma main_open_failed:
  assumes "get_links w MAX_PAGES MAX_LINKS = Inr links" "links \<noteq> []" "create_driver w = None"
    and "\<not> interrupted w 1 links" "quit_driver w = None" "open_output w = Some e"
  shows "written (main w) = None" "escaped (main w) = Some e"
proof -
  have loop: "links_loop w 1 links [] = (None, successful_records w 1 links)"
    using links_loop_done [OF assms(4), of "[]"] by simp
  show "written (main w) = None" "escaped (main w) = Some e"
    using assms(1,2,3,5,6)
    by (simp_all add: main_def start_session_def end_session_def save_csv_file_def loop
        del: One_nat_def)
qed

lemma main_discovery_failed:
  assumes "get_links w MAX_PAGES MAX_LINKS = Inl e"
  shows "persisted (main w) = []" "written (main w) = None" "escaped (main w) = Some e"
  using assms by (simp_all add: main_def effects_counts)

lemma pages_loop_cong:
  assumes "requests_get w' = requests_get w" "html_parser w' = html_parser w"
    and "urljoin w' = urljoin w"
  shows "pages_loop w' max_links page k links log = pages_loop w max_links page k links log"
proof (induction k arbitrary: page links log)
  case 0
  show ?case by simp
next
  case (Suc k)
  have a: "page_anchors w' html = page_anchors w html" for html
    by (simp add: page_anchors_def assms(2))
  show ?case
    by (simp add: assms(1,3) a Suc.IH split: sum.splits raised.splits prod.splits)
qed

lemma get_links_cong:
  assumes "requests_get w' = requests_get w" "html_parser w' = html_parser w"
    and "urljoin w' = urljoin w"
  shows "get_links w' max_pages max_links = get_links w max_pages max_links"
  by (simp add: get_links_def get_links_log_def pages_loop_cong [OF assms])




text \<open>
  Counterexample to claim C5 as stated: when the listing page shows no detail link the
  run ends without calling \<open>save_csv\<close>.
\<close>

theorem persist_always_counterexample:
  "get_links (same_page_world [''/fr/maroc/other'']) MAX_PAGES MAX_LINKS = Inr []
   \<and> persisted (main (same_page_world [''/fr/maroc/other''])) = []
   \<and> written (main (same_page_world [''/fr/maroc/other''])) = None"
  using main_no_links [OF other_page_no_links] other_page_no_links by simp

text \<open>
  Claim C5, as amended. Every run terminates. A run calls \<open>save_csv\<close> exactly when at
  least one link was discovered, \<open>create_driver\<close> returned a session, no exception
  left the loop over the links and \<open>quit\<close> did not raise; it then calls it once, with
  the records of the links processed with success, and with the empty list when every
  link failed. When the output file can be opened as well, the header row and one row
  for each record are written and the run ends without an error; with the empty list
  the header row alone is written, which is not an error. When the output file cannot
  be opened nothing is written and what \<open>open\<close> raised leaves the run. In every other
  run \<open>save_csv\<close> is not called; in particular, when no link was discovered the run
  ends without calling it, and without an error, and what leaves the link discovery
  leaves the run.
\<close>

theorem persist_after_links:
  "(get_links w MAX_PAGES MAX_LINKS = Inr links
      \<longrightarrow> persisted (main w)
            = (if links \<noteq> [] \<and> create_driver w = None \<and> \<not> interrupted w 1 links
                  \<and> quit_driver w = None
               then [successful_records w 1 links] else []))
   \<and> (get_links w MAX_PAGES MAX_LINKS = Inr links \<and> links \<noteq> [] \<and> create_driver w = None
        \<and> \<not> interrupted w 1 links \<and> quit_driver w = None \<and> open_output w = None
        \<longrightarrow> written (main w)
               = Some (csv_row keys
                       @ concat (map (\<lambda>r. csv_row (map (field r) keys))
                                   (successful_records w 1 links)))
            \<and> escaped (main w) = None)
   \<and> (get_links w MAX_PAGES MAX_LINKS = Inr links \<and> links \<noteq> [] \<and> create_driver w = None
        \<and> \<not> interrupted w 1 links \<and> quit_driver w = None \<and> open_output w = None
        \<and> successful_records w 1 links = []
        \<longrightarrow> persisted (main w) = [[]] \<and> written (main w) = Some (csv_row keys)
            \<and> escaped (main w) = None)
   \<and> (get_links w MAX_PAGES MAX_LINKS = Inr links \<and> links \<noteq> [] \<and> create_driver w = None
        \<and> \<not> interrupted w 1 links \<and> quit_driver w = None \<and> open_output w = Some e
        \<longrightarrow> written (main w) = None \<and> escaped (main w) = Some e)
   \<and> (get_links w MAX_PAGES MAX_LINKS = Inr []
        \<longrightarrow> persisted (main w) = [] \<and> written (main w) = None \<and> escaped (main w) = None)
   \<and> (get_links w MAX_PAGES MAX_LINKS = Inl e
        \<longrightarrow> persisted (main w) = [] \<and> written (main w) = None \<and> escaped (main w) = Some e)"
proof (intro conjI impI)
  assume "get_links w MAX_PAGES MAX_LINKS = Inr links"
  then show "persisted (main w)
            = (if links \<noteq> [] \<and> create_driver w = None \<and> \<not> interrupted w 1 links
                  \<and> quit_driver w = None
               then [successful_records w 1 links] else [])"
    by (rule main_persisted)
next
  assume a: "get_links w MAX_PAGES MAX_LINKS = Inr links \<and> links \<noteq> [] \<and> create_driver w = None
        \<and> \<not> interrupted w 1 links \<and> quit_driver w = None \<and> open_output w = None"
  then show "written (main w)
               = Some (csv_row keys
                       @ concat (map (\<lambda>r. csv_row (map (field r) keys))
                                   (successful_records w 1 links)))"
    "escaped (main w) = None"
    using main_written [of w links] by simp_all
next
  assume a: "get_links w MAX_PAGES MAX_LINKS = Inr links \<and> links \<noteq> [] \<and> create_driver w = None
        \<and> \<not> interrupted w 1 links \<and> quit_driver w = None \<and> open_output w = None
        \<and> successful_records w 1 links = []"
  then show "persisted (main w) = [[]]" "written (main w) = Some (csv_row keys)"
    "escaped (main w) = None"
    using main_written [of w links] main_persisted [of w links] by simp_all
next
  assume "get_links w MAX_PAGES MAX_LINKS = Inr links \<and> links \<noteq> [] \<and> create_driver w = None
        \<and> \<not> interrupted w 1 links \<and> quit_driver w = None \<and> open_output w = Some e"
  then show "written (main w) = None" "escaped (main w) = Some e"
    using main_open_failed [of w links e] by simp_all
next
  assume a: "get_links w MAX_PAGES MAX_LINKS = Inr []"
  then show "persisted (main w) = []" "written (main w) = None" "escaped (main w) = None"
    using main_no_links [of w] by simp_all
next
  assume "get_links w MAX_PAGES MAX_LINKS = Inl e"
  then show "persisted (main w) = []" "written (main w) = None" "escaped (main w) = Some e"
    using main_discovery_failed [of w e] by simp_all
qed

theorem persist_after_links_witness:
  "persisted (main failing_world) = [[]]
   \<and> written (main failing_world) = Some (csv_row keys)
   \<and> escaped (main failing_world) = None
   \<and> persisted (main (failing_world\<lparr>open_output := Some Exception\<rparr>)) = [[]]
   \<and> written (main (failing_world\<lparr>open_output := Some Exception\<rparr>)) = None
   \<and> escaped (main (failing_world\<lparr>open_output := Some Exception\<rparr>)) = Some Exception"
proof -
  let ?wo = "failing_world\<lparr>open_output := Some Exception\<rparr>"
  have n: "nav (browse failing_world url) = Some Exception"
    "nav (browse ?wo url) = Some Exception" for url
    by (simp_all add: failing_world_def)
  have p: "parse_publication failing_world k url = Inl Exception"
    "parse_publication ?wo k url = Inl Exception" for k url
    by (rule navigation_failure [OF n(1)], rule navigation_failure [OF n(2)])
  have c: "create_driver failing_world = None" "quit_driver failing_world = None"
    "pause failing_world k = None" "open_output failing_world = None" for k
    by (simp_all add: failing_world_def same_page_world_def quiet_world_def)
  have lo: "get_links ?wo MAX_PAGES MAX_LINKS = Inr [''https://www.avito.ma/fr/maroc/a_1.htm'']"
    using get_links_cong [of ?wo failing_world MAX_PAGES MAX_LINKS] failing_world_links by simp
  have 1: "persisted (main failing_world) = [[]]
     \<and> written (main failing_world) = Some (csv_row keys)
     \<and> escaped (main failing_world) = None"
    using persist_after_links [of failing_world "[''https://www.avito.ma/fr/maroc/a_1.htm'']"
        Exception]
      failing_world_links p(1) c
    by (simp del: One_nat_def)
  have 2: "persisted (main ?wo) = [[]] \<and> written (main ?wo) = None
     \<and> escaped (main ?wo) = Some Exception"
    using persist_after_links [of ?wo "[''https://www.avito.ma/fr/maroc/a_1.htm'']" Exception]
      lo p(2) c(1,2,3)
    by (simp del: One_nat_def)
  from 1 2 show ?thesis by simp
qed

end
